theory Spec2Isabelle
  imports Complex_Main
begin

section \<open>A feed-forward network trainer (nn.py)\<close>

text \<open>
  The development embeds the numerical core of \<^verbatim>\<open>nn.py\<close>: the activation functions,
  the gradient-descent loop, the layer model with its offset table, the parameter codec
  and the forward and backward engines of the classifier.

  Numbers are real numbers: the arithmetic of the arrays is the exact one, so rounding,
  overflow, \<^verbatim>\<open>inf\<close> and \<^verbatim>\<open>nan\<close> of 64-bit floats are outside the model
  (division by zero and the logarithm of a non-positive number are the total functions
  of HOL). Layer sizes and batch sizes are natural numbers. An exception of the
  interpreter or of numpy is a value of type \<open>error\<close>, returned as \<open>Inl\<close>.
\<close>

datatype error =
  KeyError | IndexError | TypeError | ValueError | AssertionError | ZeroDivisionError

definition bind_err :: "error + 'a \<Rightarrow> ('a \<Rightarrow> error + 'b) \<Rightarrow> error + 'b" where
  "bind_err m f = (case m of Inl e \<Rightarrow> Inl e | Inr x \<Rightarrow> f x)"

subsection \<open>Two-dimensional arrays\<close>

text \<open>
  A 2-D numpy array is its shape and its buffer in row-major order. A 1-D array (the
  flat parameter vector) is a plain list.
\<close>

datatype ndarray = NDArray (nrows: nat) (ncols: nat) (elems: "real list")

definition shape :: "ndarray \<Rightarrow> nat \<times> nat" where
  "shape A = (nrows A, ncols A)"

definition wf_array :: "ndarray \<Rightarrow> bool" where
  "wf_array A \<longleftrightarrow> length (elems A) = nrows A * ncols A"

definition aref :: "ndarray \<Rightarrow> nat \<Rightarrow> nat \<Rightarrow> real" where
  "aref A i j = elems A ! (i * ncols A + j)"

definition mk_array :: "nat \<Rightarrow> nat \<Rightarrow> (nat \<Rightarrow> nat \<Rightarrow> real) \<Rightarrow> ndarray" where
  "mk_array r c f = NDArray r c (map (\<lambda>k. f (k div c) (k mod c)) [0..<r * c])"

text \<open>Elementwise operations with a scalar, and unary ones: same shape, mapped buffer.\<close>

definition amap :: "(real \<Rightarrow> real) \<Rightarrow> ndarray \<Rightarrow> ndarray" where
  "amap f A = NDArray (nrows A) (ncols A) (map f (elems A))"

text \<open>
  Broadcasting of numpy: two extents are compatible when they are equal or one of them
  is 1; the axis of extent 1 is repeated.
\<close>

definition bdim :: "nat \<Rightarrow> nat \<Rightarrow> nat option" where
  "bdim a b = (if a = b then Some a else if a = 1 then Some b
               else if b = 1 then Some a else None)"

definition bref :: "ndarray \<Rightarrow> nat \<Rightarrow> nat \<Rightarrow> real" where
  "bref A i j = aref A (if nrows A = 1 then 0 else i) (if ncols A = 1 then 0 else j)"

definition bop :: "(real \<Rightarrow> real \<Rightarrow> real) \<Rightarrow> ndarray \<Rightarrow> ndarray \<Rightarrow> error + ndarray" where
  "bop f A B =
     (case bdim (nrows A) (nrows B) of
        None \<Rightarrow> Inl ValueError
      | Some r \<Rightarrow>
          (case bdim (ncols A) (ncols B) of
             None \<Rightarrow> Inl ValueError
           | Some c \<Rightarrow> Inr (mk_array r c (\<lambda>i j. f (bref A i j) (bref B i j)))))"

text \<open>\<^verbatim>\<open>A += B\<close>: the right-hand side is broadcast to the shape of \<open>A\<close>, which is kept.\<close>

definition iadd :: "ndarray \<Rightarrow> ndarray \<Rightarrow> error + ndarray" where
  "iadd A B =
     (if (nrows B = nrows A \<or> nrows B = 1) \<and> (ncols B = ncols A \<or> ncols B = 1)
      then Inr (mk_array (nrows A) (ncols A) (\<lambda>i j. aref A i j + bref B i j))
      else Inl ValueError)"

definition dot :: "ndarray \<Rightarrow> ndarray \<Rightarrow> error + ndarray" where
  "dot A B =
     (if ncols A = nrows B
      then Inr (mk_array (nrows A) (ncols B)
                  (\<lambda>i j. sum_list (map (\<lambda>k. aref A i k * aref B k j) [0..<ncols A])))
      else Inl ValueError)"

definition arr_T :: "ndarray \<Rightarrow> ndarray" where
  "arr_T A = mk_array (ncols A) (nrows A) (\<lambda>i j. aref A j i)"

definition sum_all :: "ndarray \<Rightarrow> real" where
  "sum_all A = sum_list (elems A)"

definition sum_axis1 :: "ndarray \<Rightarrow> ndarray" where
  "sum_axis1 A = mk_array (nrows A) 1 (\<lambda>i j. sum_list (map (\<lambda>k. aref A i k) [0..<ncols A]))"

subsection \<open>Activation functions\<close>

definition relu :: "ndarray \<Rightarrow> ndarray" where
  "relu z = amap (\<lambda>x. max 0 x) z"

definition relu_backward :: "ndarray \<Rightarrow> ndarray \<Rightarrow> error + ndarray" where
  "relu_backward dA Z = bop (*) dA (amap (\<lambda>x. if x > 0 then 1 else 0) Z)"

definition relu_derv :: "ndarray \<Rightarrow> error + ndarray" where
  "relu_derv z = Inr (amap (\<lambda>x. if x \<ge> 0 then 1 else 0) z)"

definition sigmoid :: "ndarray \<Rightarrow> ndarray" where
  "sigmoid z = amap (\<lambda>x. 1 / (1 + exp (- x))) z"

definition sigmoid_backward :: "ndarray \<Rightarrow> ndarray \<Rightarrow> error + ndarray" where
  "sigmoid_backward dA z =
     (let a = sigmoid z
      in bind_err (bop (*) dA a) (\<lambda>t. bop (*) t (amap (\<lambda>x. 1 - x) a)))"

definition sigmoid_derv :: "ndarray \<Rightarrow> error + ndarray" where
  "sigmoid_derv z = (let a = sigmoid z in bop (*) a (amap (\<lambda>x. 1 - x) a))"

subsection \<open>The layer model\<close>

text \<open>
  The activation of a layer is the triple (value, derivative, backward rule) that the
  registry holds under the activation's name, or \<open>None\<close>.
\<close>

type_synonym activation =
  "(ndarray \<Rightarrow> ndarray) \<times> (ndarray \<Rightarrow> error + ndarray) \<times> (ndarray \<Rightarrow> ndarray \<Rightarrow> error + ndarray)"

record NnLayer =
  dim :: nat
  activation :: "activation option"

text \<open>
  An entry of the offset table: the placeholder \<^verbatim>\<open>(0, 0)\<close> of layer 0, or the pair
  of half-open ranges \<^verbatim>\<open>(w_offset, b_offset)\<close> of a transformation layer.
\<close>

datatype offsets =
  Placeholder nat nat | Ranges (weight_range: "nat \<times> nat") (bias_range: "nat \<times> nat")

record NnModel =
  layers :: "NnLayer list"
  layer_offsets :: "offsets list"

definition activations :: "string \<Rightarrow> activation option" where
  "activations =
     [''relu'' \<mapsto> (relu, relu_derv, relu_backward),
      ''sigmoid'' \<mapsto> (sigmoid, sigmoid_derv, sigmoid_backward)]"

definition NnModel_init :: NnModel where
  "NnModel_init = \<lparr>layers = [], layer_offsets = []\<rparr>"

text \<open>
  \<^verbatim>\<open>add\<close> appends the input layer before it looks the activation up, so a
  \<^verbatim>\<open>KeyError\<close> leaves the input layer in the model: the result is the outcome and
  the model after the call.
\<close>

definition add :: "nat \<Rightarrow> string \<Rightarrow> nat \<Rightarrow> NnModel \<Rightarrow> (error + unit) \<times> NnModel" where
  "add units act input_dim M =
     (let M1 = (if input_dim \<noteq> 0 \<and> layers M = []
                then M\<lparr>layers := layers M @ [\<lparr>dim = input_dim, activation = None\<rparr>]\<rparr>
                else M)
      in case activations act of
           None \<Rightarrow> (Inl KeyError, M1)
         | Some a \<Rightarrow>
             (Inr (), M1\<lparr>layers := layers M1 @ [\<lparr>dim = units, activation = Some a\<rparr>]\<rparr>))"

fun compile_loop :: "NnLayer list \<Rightarrow> nat list \<Rightarrow> nat \<Rightarrow> offsets list \<Rightarrow> offsets list" where
  "compile_loop ls [] offset acc = acc"
| "compile_loop ls (layer # rest) offset acc =
     (let prev_layer_dim = dim (ls ! (layer - 1));
          layer_dim = dim (ls ! layer);
          w_offset = (offset, offset + prev_layer_dim * layer_dim);
          b_offset = (snd w_offset, snd w_offset + layer_dim)
      in compile_loop ls rest (offset + prev_layer_dim * layer_dim + layer_dim)
           (acc @ [Ranges w_offset b_offset]))"

definition compile :: "NnModel \<Rightarrow> NnModel" where
  "compile M =
     M\<lparr>layer_offsets :=
         compile_loop (layers M) [1..<length (layers M)] 0 [Placeholder 0 0]\<rparr>"

text \<open>
  A sequence of \<^verbatim>\<open>add\<close> calls on a fresh model, each given as (units, activation,
  input_dim); the first exception ends the script.
\<close>

fun add_all :: "(nat \<times> string \<times> nat) list \<Rightarrow> NnModel \<Rightarrow> error + NnModel" where
  "add_all [] M = Inr M"
| "add_all ((units, act, input_dim) # cs) M =
     (case add units act input_dim M of
        (Inl e, M') \<Rightarrow> Inl e
      | (Inr u, M') \<Rightarrow> add_all cs M')"

definition build :: "(nat \<times> string \<times> nat) list \<Rightarrow> error + NnModel" where
  "build cs = bind_err (add_all cs NnModel_init) (\<lambda>M. Inr (compile M))"

text \<open>The model after a sequence of calls, whatever each call's outcome was.\<close>

definition add_calls :: "(nat \<times> string \<times> nat) list \<Rightarrow> NnModel \<Rightarrow> NnModel" where
  "add_calls cs M = fold (\<lambda>(units, act, input_dim) M'. snd (add units act input_dim M')) cs M"

subsection \<open>The parameter codec\<close>

text \<open>
  Indexing a Python list: \<^verbatim>\<open>xs[i]\<close>, \<^verbatim>\<open>xs[i - 1]\<close> (which is \<^verbatim>\<open>xs[-1]\<close>, the
  last element, at \<open>i = 0\<close>) and \<^verbatim>\<open>xs[-1]\<close>.
\<close>

definition py_nth :: "'a list \<Rightarrow> nat \<Rightarrow> error + 'a" where
  "py_nth xs i = (if i < length xs then Inr (xs ! i) else Inl IndexError)"

definition py_last :: "'a list \<Rightarrow> error + 'a" where
  "py_last xs = (if xs = [] then Inl IndexError else Inr (last xs))"

definition py_prev :: "'a list \<Rightarrow> nat \<Rightarrow> error + 'a" where
  "py_prev xs i = (if i = 0 then py_last xs else py_nth xs (i - 1))"

text \<open>
  Slices of the flat vector. Reading \<^verbatim>\<open>params[a:b]\<close> clamps both ends to the length.
  Writing \<^verbatim>\<open>params[a:b, ...] = V\<close> through the \<^verbatim>\<open>(-1, 1)\<close> view copies a column of
  the slice's length, repeats a column of length 1, and raises otherwise. The view
  shares the buffer of the contiguous vector, so the write is to the caller's vector:
  the model returns the vector after the write.
\<close>

definition get_slice :: "real list \<Rightarrow> nat \<Rightarrow> nat \<Rightarrow> real list" where
  "get_slice xs a b = take (b - a) (drop a xs)"

definition set_slice :: "real list \<Rightarrow> nat \<Rightarrow> nat \<Rightarrow> real list \<Rightarrow> error + real list" where
  "set_slice xs a b vs =
     (let n = length xs; s = min a n; e = max s (min b n); k = e - s
      in if length vs = k then Inr (take s xs @ vs @ drop e xs)
         else if length vs = 1 then Inr (take s xs @ replicate k (hd vs) @ drop e xs)
         else Inl ValueError)"

definition reshape2 :: "real list \<Rightarrow> nat \<Rightarrow> nat \<Rightarrow> error + ndarray" where
  "reshape2 xs r c = (if length xs = r * c then Inr (NDArray r c xs) else Inl ValueError)"

definition pack_params ::
  "NnModel \<Rightarrow> nat \<Rightarrow> real list \<Rightarrow> ndarray \<Rightarrow> ndarray \<Rightarrow> error + real list" where
  "pack_params M layer params W b =
     bind_err (py_nth (layers M) layer) (\<lambda>lay.
     bind_err (py_prev (layers M) layer) (\<lambda>prev.
       if shape W \<noteq> (dim lay, dim prev) then Inl AssertionError
       else if shape b \<noteq> (dim lay, 1) then Inl AssertionError
       else
         bind_err (py_nth (layer_offsets M) layer) (\<lambda>entry.
           case entry of
             Placeholder x y \<Rightarrow> Inl TypeError
           | Ranges w_offset b_offset \<Rightarrow>
               bind_err (set_slice params (fst w_offset) (snd w_offset) (elems W)) (\<lambda>params1.
                 set_slice params1 (fst b_offset) (snd b_offset) (elems b)))))"

definition unpack_params ::
  "NnModel \<Rightarrow> nat \<Rightarrow> real list \<Rightarrow> error + (ndarray \<times> ndarray)" where
  "unpack_params M layer params =
     bind_err (py_prev (layers M) layer) (\<lambda>prev.
     bind_err (py_nth (layers M) layer) (\<lambda>lay.
     bind_err (py_nth (layer_offsets M) layer) (\<lambda>entry.
       case entry of
         Placeholder x y \<Rightarrow> Inl TypeError
       | Ranges w_offset b_offset \<Rightarrow>
           bind_err (reshape2 (get_slice params (fst w_offset) (snd w_offset))
                       (dim lay) (dim prev)) (\<lambda>W.
           bind_err (reshape2 (get_slice params (fst b_offset) (snd b_offset))
                       (dim lay) 1) (\<lambda>b.
             Inr (W, b))))))"

subsection \<open>The gradient-descent optimizer\<close>

text \<open>
  \<^verbatim>\<open>params - alpha * grad\<close> on 1-D arrays, with numpy's broadcasting of an array of
  length 1. The cost function is any function of the parameters that returns a cost
  and a gradient or raises. The debug print writes to standard output only and is left
  out.
\<close>

definition vsub :: "real list \<Rightarrow> real list \<Rightarrow> error + real list" where
  "vsub xs ys =
     (if length xs = length ys then Inr (map2 (-) xs ys)
      else if length xs = 1 then Inr (map (\<lambda>y. hd xs - y) ys)
      else if length ys = 1 then Inr (map (\<lambda>x. x - hd ys) xs)
      else Inl ValueError)"

record GradDescentOptimizer =
  alpha :: real
  debug :: bool
  iters :: int

fun optimize_loop ::
  "real \<Rightarrow> (real list \<Rightarrow> error + ('c \<times> real list)) \<Rightarrow> nat list \<Rightarrow> real list \<Rightarrow> 'c list
     \<Rightarrow> error + (real list \<times> 'c list)" where
  "optimize_loop a cost_fn [] params costs = Inr (params, costs)"
| "optimize_loop a cost_fn (i # is) params costs =
     bind_err (cost_fn params) (\<lambda>(cost, grad).
     bind_err (vsub params (map (\<lambda>g. a * g) grad)) (\<lambda>params'.
       optimize_loop a cost_fn is params'
         (if i mod 100 = 0 then costs @ [cost] else costs)))"

definition optimize ::
  "GradDescentOptimizer \<Rightarrow> (real list \<Rightarrow> error + ('c \<times> real list)) \<Rightarrow> real list
     \<Rightarrow> error + (real list \<times> 'c list)" where
  "optimize self cost_fn params =
     optimize_loop (alpha self) cost_fn [0..<nat (iters self)] params []"

subsection \<open>The classifier's engines\<close>

text \<open>
  The classifier's fields that the engines read are passed as arguments: the
  regularisation weight \<open>lambd\<close> and the model \<open>M\<close>. The cache \<open>Z\<close> starts with
  \<^verbatim>\<open>None\<close>, so it is a list of options.
\<close>

fun forward_loop ::
  "NnModel \<Rightarrow> real list \<Rightarrow> ndarray \<Rightarrow> nat list \<Rightarrow> ndarray list \<Rightarrow> ndarray option list
     \<Rightarrow> error + (ndarray list \<times> ndarray option list)" where
  "forward_loop M params X [] A Z = Inr (A, Z)"
| "forward_loop M params X (l # ls) A Z =
     bind_err (py_nth (layers M) l) (\<lambda>layer.
     bind_err (unpack_params M l params) (\<lambda>(W, b).
     bind_err (py_prev A l) (\<lambda>A_prev.
     bind_err (dot W A_prev) (\<lambda>WA.
     bind_err (bop (+) WA b) (\<lambda>Zl.
       let Z' = Z @ [Some Zl] in
       case activation layer of
         None \<Rightarrow> Inl TypeError
       | Some act \<Rightarrow>
           bind_err (py_nth Z' l) (\<lambda>z.
             case z of
               None \<Rightarrow> Inl TypeError
             | Some z' \<Rightarrow>
                 let A' = A @ [fst act z'] in
                 bind_err (py_nth A' l) (\<lambda>Al.
                   if shape Al \<noteq> (dim layer, ncols X) then Inl AssertionError
                   else forward_loop M params X ls A' Z')))))))"

definition propagate_forward ::
  "NnModel \<Rightarrow> real list \<Rightarrow> ndarray \<Rightarrow> error + (ndarray list \<times> ndarray option list)" where
  "propagate_forward M params X =
     forward_loop M params X [1..<length (layers M)] [X] [None]"

fun cost_loop :: "real \<Rightarrow> NnModel \<Rightarrow> real list \<Rightarrow> nat \<Rightarrow> nat list \<Rightarrow> real \<Rightarrow> error + real" where
  "cost_loop lambd M params m [] J = Inr J"
| "cost_loop lambd M params m (l # ls) J =
     bind_err (unpack_params M l params) (\<lambda>(W, b).
       if m = 0 then Inl ZeroDivisionError
       else cost_loop lambd M params m ls
              (J + (lambd / (2 * real m)) * sum_all (amap (\<lambda>w. w ^ 2) W)))"

definition compute_cost ::
  "real \<Rightarrow> NnModel \<Rightarrow> real list \<Rightarrow> ndarray \<Rightarrow> ndarray \<Rightarrow> error + real" where
  "compute_cost lambd M params AL Y =
     (let m = ncols AL in
      bind_err (bop (*) Y (amap ln AL)) (\<lambda>t1.
      bind_err (bop (*) (amap (\<lambda>y. 1 - y) Y) (amap ln (amap (\<lambda>a. 1 - a) AL))) (\<lambda>t2.
      bind_err (bop (+) t1 t2) (\<lambda>s.
        let L = amap uminus s in
        if m = 0 then Inl ZeroDivisionError
        else cost_loop lambd M params m [1..<length (layers M)]
               ((1 / real m) * sum_all L)))))"

definition linear_backward ::
  "real \<Rightarrow> ndarray \<Rightarrow> ndarray \<Rightarrow> ndarray \<Rightarrow> ndarray
     \<Rightarrow> error + (ndarray \<times> ndarray \<times> ndarray)" where
  "linear_backward lambd dZ A_prev W b =
     (let m = ncols A_prev in
      if m = 0 then Inl ZeroDivisionError
      else
        bind_err (dot dZ (arr_T A_prev)) (\<lambda>d.
        bind_err (iadd (amap (\<lambda>x. (1 / real m) * x) d)
                       (amap (\<lambda>w. (lambd / real m) * w) W)) (\<lambda>dW.
          let db = amap (\<lambda>x. (1 / real m) * x) (sum_axis1 dZ) in
          bind_err (dot (arr_T W) dZ) (\<lambda>dA_prev.
            Inr (dW, db, dA_prev)))))"

fun backward_loop ::
  "real \<Rightarrow> NnModel \<Rightarrow> real list \<Rightarrow> ndarray list \<Rightarrow> ndarray option list \<Rightarrow> nat list
     \<Rightarrow> ndarray \<Rightarrow> real list \<Rightarrow> error + real list" where
  "backward_loop lambd M params A Z [] dA grad = Inr grad"
| "backward_loop lambd M params A Z (l # ls) dA grad =
     bind_err (py_nth (layers M) l) (\<lambda>layer.
     bind_err (unpack_params M l params) (\<lambda>(W, b).
       case activation layer of
         None \<Rightarrow> Inl TypeError
       | Some act \<Rightarrow>
           bind_err (py_nth Z l) (\<lambda>z.
             case z of
               None \<Rightarrow> Inl TypeError
             | Some Zl \<Rightarrow>
                 bind_err (snd (snd act) dA Zl) (\<lambda>dZ.
                 bind_err (py_nth A l) (\<lambda>Al.
                   if shape dZ \<noteq> shape Al then Inl AssertionError
                   else
                     bind_err (py_prev A l) (\<lambda>A_prev.
                     bind_err (linear_backward lambd dZ A_prev W b) (\<lambda>(dW, db, dA_prev).
                     bind_err (pack_params M l grad dW db) (\<lambda>grad'.
                       backward_loop lambd M params A Z ls dA_prev grad'))))))))"

definition propagate_backward ::
  "real \<Rightarrow> NnModel \<Rightarrow> real list \<Rightarrow> ndarray list \<Rightarrow> ndarray option list \<Rightarrow> ndarray
     \<Rightarrow> error + real list" where
  "propagate_backward lambd M params A Z Y =
     bind_err (py_last A) (\<lambda>AL.
       let grad = replicate (length params) 0 in
       bind_err (bop (/) Y AL) (\<lambda>t1.
       bind_err (bop (/) (amap (\<lambda>y. 1 - y) Y)
                   (amap (\<lambda>a. max a (1 / 10 ^ 8)) (amap (\<lambda>a. 1 - a) AL))) (\<lambda>t2.
       bind_err (bop (+) (amap uminus t1) t2) (\<lambda>dA.
         backward_loop lambd M params A Z (rev [1..<length (layers M)]) dA grad))))"

definition cost ::
  "real \<Rightarrow> NnModel \<Rightarrow> real list \<Rightarrow> ndarray \<Rightarrow> ndarray \<Rightarrow> error + (real \<times> real list)" where
  "cost lambd M params X Y =
     bind_err (propagate_forward M params X) (\<lambda>(A, Z).
     bind_err (py_last A) (\<lambda>AL.
     bind_err (compute_cost lambd M params AL Y) (\<lambda>c.
     bind_err (propagate_backward lambd M params A Z Y) (\<lambda>grad.
       Inr (c, grad)))))"

subsection \<open>Descriptions used in the statements\<close>

text \<open>
  The length of the parameter vector, as \<^verbatim>\<open>_init_params\<close> accumulates it, and the
  index sets of the two ranges of a table entry.
\<close>

definition total_param_length :: "NnLayer list \<Rightarrow> nat" where
  "total_param_length ls =
     sum_list (map (\<lambda>l. dim (ls ! l) * dim (ls ! (l - 1)) + dim (ls ! l)) [1..<length ls])"

fun w_range :: "offsets \<Rightarrow> nat set" where
  "w_range (Placeholder x y) = {}"
| "w_range (Ranges w b) = {fst w..<snd w}"

fun b_range :: "offsets \<Rightarrow> nat set" where
  "b_range (Placeholder x y) = {}"
| "b_range (Ranges w b) = {fst b..<snd b}"

text \<open>
  The closed form of the table: a layer's block starts where the blocks of the layers
  before it end.
\<close>

definition layer_size :: "NnLayer list \<Rightarrow> nat \<Rightarrow> nat" where
  "layer_size ls l = dim (ls ! (l - 1)) * dim (ls ! l) + dim (ls ! l)"

definition layer_start :: "NnLayer list \<Rightarrow> nat \<Rightarrow> nat" where
  "layer_start ls l = sum_list (map (layer_size ls) [1..<l])"

definition ranges_of :: "NnLayer list \<Rightarrow> nat \<Rightarrow> offsets" where
  "ranges_of ls l =
     Ranges (layer_start ls l, layer_start ls l + dim (ls ! (l - 1)) * dim (ls ! l))
            (layer_start ls l + dim (ls ! (l - 1)) * dim (ls ! l), layer_start ls (Suc l))"

text \<open>
  The iteration of gradient descent as the specification words it: \<open>params\<^sub>0\<close> is the
  initial vector and \<open>params\<^sub>i\<^sub>+\<^sub>1 = params\<^sub>i - \<alpha> \<cdot> grad\<^sub>i\<close> with
  \<open>(cost\<^sub>i, grad\<^sub>i) = cost_fn params\<^sub>i\<close>. The step is stated entry by entry: entry \<open>j\<close>
  of the new vector is \<open>p[j] - \<alpha> \<cdot> g[j]\<close>; a vector of length 1 on either side stands
  for every entry, and any other two lengths have no difference.
\<close>

definition gd_step :: "real \<Rightarrow> real list \<Rightarrow> real list \<Rightarrow> error + real list" where
  "gd_step a p g =
     (if length g = length p then Inr (map (\<lambda>j. p ! j - a * g ! j) [0..<length p])
      else if length p = 1 then Inr (map (\<lambda>j. p ! 0 - a * g ! j) [0..<length g])
      else if length g = 1 then Inr (map (\<lambda>j. p ! j - a * g ! 0) [0..<length p])
      else Inl ValueError)"

fun gd_params ::
  "real \<Rightarrow> (real list \<Rightarrow> error + ('c \<times> real list)) \<Rightarrow> real list \<Rightarrow> nat \<Rightarrow> error + real list" where
  "gd_params a cost_fn p0 0 = Inr p0"
| "gd_params a cost_fn p0 (Suc i) =
     bind_err (gd_params a cost_fn p0 i) (\<lambda>p.
     bind_err (cost_fn p) (\<lambda>(c, g). gd_step a p g))"

definition gd_cost ::
  "real \<Rightarrow> (real list \<Rightarrow> error + ('c \<times> real list)) \<Rightarrow> real list \<Rightarrow> nat \<Rightarrow> error + 'c" where
  "gd_cost a cost_fn p0 i =
     bind_err (gd_params a cost_fn p0 i) (\<lambda>p. bind_err (cost_fn p) (\<lambda>(c, g). Inr c))"

text \<open>
  The activation triples of the registry, and the models in which every layer after
  the first carries one of them, as every model built by \<^verbatim>\<open>add\<close> does.
\<close>

definition registered :: "activation \<Rightarrow> bool" where
  "registered act \<longleftrightarrow>
     act = (relu, relu_derv, relu_backward) \<or> act = (sigmoid, sigmoid_derv, sigmoid_backward)"

definition well_built :: "NnModel \<Rightarrow> bool" where
  "well_built M \<longleftrightarrow>
     (\<forall>l. 1 \<le> l \<and> l < length (layers M) \<longrightarrow>
        (\<exists>act. activation (layers M ! l) = Some act \<and> registered act))"

text \<open>
  The linear step of a layer, entry by entry: \<open>Z = W \<cdot> A_prev + b\<close> with the bias
  column added to every column.
\<close>

definition linear_spec :: "ndarray \<Rightarrow> ndarray \<Rightarrow> ndarray \<Rightarrow> ndarray" where
  "linear_spec W A_prev b =
     mk_array (nrows W) (ncols A_prev)
       (\<lambda>i j. (\<Sum>k<ncols W. aref W i k * aref A_prev k j) + aref b i 0)"

text \<open>The first \<open>k\<close> activations are well-formed arrays of shape \<open>(dim[i], m)\<close>.\<close>

definition caches_ok :: "NnModel \<Rightarrow> nat \<Rightarrow> nat \<Rightarrow> ndarray list \<Rightarrow> bool" where
  "caches_ok M m k A \<longleftrightarrow>
     length A = k \<and>
     (\<forall>i<k. wf_array (A ! i) \<and> shape (A ! i) = (dim (layers M ! i), m))"

text \<open>
  The cost as the specification words it: the mean over the batch of the cross-entropy
  loss of a one-row activation, the sum of the squares of a weight matrix, the weight
  matrix that \<^verbatim>\<open>unpack_params\<close> reads at a layer, and the L2 penalty
  \<open>\<Sum>\<^sub>l (\<lambda> / (2m)) \<cdot> \<Sum>(W\<^sub>l\<^sup>2)\<close> over the transformation layers.
\<close>

definition cross_entropy :: "ndarray \<Rightarrow> ndarray \<Rightarrow> real" where
  "cross_entropy AL Y =
     (\<Sum>j<ncols AL. - (aref Y 0 j * ln (aref AL 0 j) + (1 - aref Y 0 j) * ln (1 - aref AL 0 j)))
       / real (ncols AL)"

definition sum_sq :: "ndarray \<Rightarrow> real" where
  "sum_sq W = (\<Sum>i<nrows W. \<Sum>k<ncols W. (aref W i k) ^ 2)"

definition layer_W :: "NnModel \<Rightarrow> real list \<Rightarrow> nat \<Rightarrow> ndarray" where
  "layer_W M params l =
     (case unpack_params M l params of Inr (W, b) \<Rightarrow> W | Inl e \<Rightarrow> NDArray 0 0 [])"

definition l2_penalty :: "real \<Rightarrow> NnModel \<Rightarrow> real list \<Rightarrow> nat \<Rightarrow> real" where
  "l2_penalty lambd M params m =
     (\<Sum>l = 1..<length (layers M). (lambd / (2 * real m)) * sum_sq (layer_W M params l))"

text \<open>
  The recurrence of backpropagation, entry by entry: the seed
  \<open>-Y/A\<^sub>L + (1-Y)/max(1-A\<^sub>L, 1e-8)\<close> with the row of labels repeated over the rows of
  \<open>A\<^sub>L\<close>, \<open>dW = (1/m) \<cdot> dZ \<cdot> A_prev\<^sup>T + (\<lambda>/m) \<cdot> W\<close>, \<open>db = (1/m) \<cdot> row-sum(dZ)\<close> and
  \<open>dA_prev = W\<^sup>T \<cdot> dZ\<close>, where \<open>m\<close> is the number of columns.
\<close>

definition seed_spec :: "ndarray \<Rightarrow> ndarray \<Rightarrow> ndarray" where
  "seed_spec AL Y =
     mk_array (nrows AL) (ncols AL)
       (\<lambda>i j. - (aref Y 0 j / aref AL i j)
              + (1 - aref Y 0 j) / max (1 - aref AL i j) (1 / 10 ^ 8))"

definition dW_spec :: "real \<Rightarrow> ndarray \<Rightarrow> ndarray \<Rightarrow> ndarray \<Rightarrow> ndarray" where
  "dW_spec lambd dZ A_prev W =
     mk_array (nrows dZ) (nrows A_prev)
       (\<lambda>i j. (1 / real (ncols A_prev)) * (\<Sum>k<ncols A_prev. aref dZ i k * aref A_prev j k)
              + (lambd / real (ncols A_prev)) * aref W i j)"

definition db_spec :: "ndarray \<Rightarrow> ndarray" where
  "db_spec dZ =
     mk_array (nrows dZ) 1 (\<lambda>i j. (1 / real (ncols dZ)) * (\<Sum>k<ncols dZ. aref dZ i k))"

definition dA_prev_spec :: "ndarray \<Rightarrow> ndarray \<Rightarrow> ndarray" where
  "dA_prev_spec W dZ =
     mk_array (ncols W) (ncols dZ) (\<lambda>i j. \<Sum>k<nrows W. aref W k i * aref dZ k j)"

text \<open>The pre-activations of the layers \<open>l \<ge> 1\<close> are well-formed, of shape \<open>(dim[l], m)\<close>.\<close>

definition zcache_ok :: "NnModel \<Rightarrow> nat \<Rightarrow> ndarray option list \<Rightarrow> bool" where
  "zcache_ok M m Z \<longleftrightarrow>
     length Z = length (layers M) \<and>
     (\<forall>l. 1 \<le> l \<and> l < length (layers M) \<longrightarrow>
        (\<exists>Zl. Z ! l = Some Zl \<and> wf_array Zl \<and> shape Zl = (dim (layers M ! l), m)))"

section \<open>Basic facts\<close>

lemma bind_err_Inr [simp]: "bind_err (Inr x) f = f x"
  by (simp add: bind_err_def)

lemma bind_err_Inl [simp]: "bind_err (Inl e) f = Inl e"
  by (simp add: bind_err_def)

section \<open>The layer model\<close>

subsection \<open>add\<close>

lemma add_layers:
  "layers (snd (add units act input_dim M)) =
     layers M
     @ (if input_dim \<noteq> 0 \<and> layers M = [] then [\<lparr>dim = input_dim, activation = None\<rparr>] else [])
     @ (case activations act of None \<Rightarrow> [] | Some a \<Rightarrow> [\<lparr>dim = units, activation = Some a\<rparr>])"
  by (simp add: add_def Let_def split: option.splits)

lemma add_calls_append: "layers M \<noteq> [] \<Longrightarrow> \<exists>ys. layers (add_calls cs M) = layers M @ ys"
proof (induction cs arbitrary: M)
  case Nil then show ?case by (simp add: add_calls_def)
next
  case (Cons c cs)
  obtain u a i where c: "c = (u, a, i)" by (cases c) auto
  have ne: "layers (snd (add u a i M)) \<noteq> []" using Cons.prems by (simp add: add_layers)
  obtain ys where "layers (add_calls cs (snd (add u a i M))) = layers (snd (add u a i M)) @ ys"
    using Cons.IH [OF ne] by blast
  then show ?case using Cons.prems by (auto simp: add_calls_def c add_layers)
qed

text \<open>
  Claim C9, as the code has it. The layer at index 0 has no activation when the first
  call of \<^verbatim>\<open>add\<close> on the fresh model passes a nonzero \<open>input_dim\<close>: that call inserts
  the input layer, of size \<open>input_dim\<close>, and every later call only appends.
\<close>

theorem add_input_layer_first:
  "input_dim \<noteq> 0 \<Longrightarrow>
     layers (add_calls ((units, act, input_dim) # cs) NnModel_init) \<noteq> []
     \<and> activation (layers (add_calls ((units, act, input_dim) # cs) NnModel_init) ! 0) = None
     \<and> dim (layers (add_calls ((units, act, input_dim) # cs) NnModel_init) ! 0) = input_dim"
proof -
  assume h: "input_dim \<noteq> 0"
  let ?M = "snd (add units act input_dim NnModel_init)"
  have l: "\<exists>zs. layers ?M = \<lparr>dim = input_dim, activation = None\<rparr> # zs"
    using h by (simp add: add_layers NnModel_init_def)
  then have "layers ?M \<noteq> []" by auto
  then obtain ys where "layers (add_calls cs ?M) = layers ?M @ ys"
    using add_calls_append by blast
  moreover have "add_calls ((units, act, input_dim) # cs) NnModel_init = add_calls cs ?M"
    by (simp add: add_calls_def)
  ultimately show ?thesis using l by auto
qed

theorem add_input_layer_first_witness:
  "(3::nat) \<noteq> 0
   \<and> activation (layers (add_calls [(4, ''relu'', 3), (1, ''sigmoid'', 0)] NnModel_init) ! 0) = None
   \<and> dim (layers (add_calls [(4, ''relu'', 3), (1, ''sigmoid'', 0)] NnModel_init) ! 0) = 3"
  using add_input_layer_first [of 3 4 "''relu''" "[(1, ''sigmoid'', 0)]"] by simp

text \<open>
  Claim C9 as stated fails: one call \<^verbatim>\<open>add(16, 'relu')\<close> on a fresh model, with the
  default \<open>input_dim = 0\<close>, leaves a layer 0 that carries the relu triple.
\<close>

theorem layer0_activation_counterexample:
  "\<not> (activation (layers (add_calls [(16, ''relu'', 0)] NnModel_init) ! 0) = None)"
  by (simp add: add_calls_def add_def activations_def NnModel_init_def)

text \<open>
  Claim C10. \<^verbatim>\<open>add\<close> inserts the input layer exactly when \<open>input_dim\<close> is nonzero and
  the model has no layer, before it appends the transformation layer of a known
  activation; with \<open>input_dim = 0\<close> a fresh model gets the transformation layer only,
  and on a model that has a layer the call does the same for every \<open>input_dim\<close>.
\<close>

theorem add_input_dim:
  "layers (snd (add units act input_dim M)) =
     layers M
     @ (if input_dim \<noteq> 0 \<and> layers M = [] then [\<lparr>dim = input_dim, activation = None\<rparr>] else [])
     @ (case activations act of None \<Rightarrow> [] | Some a \<Rightarrow> [\<lparr>dim = units, activation = Some a\<rparr>])
   \<and> layers (snd (add units act 0 NnModel_init)) =
       (case activations act of None \<Rightarrow> [] | Some a \<Rightarrow> [\<lparr>dim = units, activation = Some a\<rparr>])
   \<and> (layers M \<noteq> [] \<longrightarrow> add units act input_dim M = add units act 0 M)"
  by (auto simp: add_layers NnModel_init_def add_def Let_def split: option.splits)

theorem add_input_dim_witness:
  "layers (add_calls [(4, ''relu'', 3)] NnModel_init) \<noteq> []
   \<and> add 1 ''sigmoid'' 7 (add_calls [(4, ''relu'', 3)] NnModel_init)
     = add 1 ''sigmoid'' 0 (add_calls [(4, ''relu'', 3)] NnModel_init)
   \<and> map dim (layers (snd (add 1 ''sigmoid'' 7 (add_calls [(4, ''relu'', 3)] NnModel_init))))
     = [3, 4, 1]
   \<and> map dim (layers (snd (add 5 ''relu'' 0 NnModel_init))) = [5]"
proof -
  have ne: "layers (add_calls [(4, ''relu'', 3)] NnModel_init) \<noteq> []"
    by (simp add: add_calls_def add_def activations_def NnModel_init_def)
  have "add 1 ''sigmoid'' 7 (add_calls [(4, ''relu'', 3)] NnModel_init)
     = add 1 ''sigmoid'' 0 (add_calls [(4, ''relu'', 3)] NnModel_init)"
    using add_input_dim [of 1 "''sigmoid''" 7 "add_calls [(4, ''relu'', 3)] NnModel_init"] ne
    by blast
  then show ?thesis using ne
    by (simp add: add_calls_def add_def activations_def NnModel_init_def)
qed

subsection \<open>compile\<close>

lemma layer_start_Suc: "1 \<le> l \<Longrightarrow> layer_start ls (Suc l) = layer_start ls l + layer_size ls l"
  by (simp add: layer_start_def)

lemma layer_start_1: "layer_start ls (Suc 0) = 0"
  by (simp add: layer_start_def)

lemma total_param_length_start: "total_param_length ls = layer_start ls (length ls)"
proof -
  have "layer_size ls = (\<lambda>l. dim (ls ! l) * dim (ls ! (l - 1)) + dim (ls ! l))"
    by (auto simp: layer_size_def fun_eq_iff)
  then show ?thesis by (simp add: total_param_length_def layer_start_def)
qed

lemma compile_loop_eq:
  "1 \<le> k \<Longrightarrow> compile_loop ls [k..<n] (layer_start ls k) acc = acc @ map (ranges_of ls) [k..<n]"
proof (induction "n - k" arbitrary: k acc)
  case 0
  then show ?case by simp
next
  case (Suc d)
  then have kn: "k < n" by simp
  have step: "compile_loop ls [Suc k..<n] (layer_start ls (Suc k)) (acc @ [ranges_of ls k])
      = (acc @ [ranges_of ls k]) @ map (ranges_of ls) [Suc k..<n]"
    using Suc by (intro Suc.hyps(1)) auto
  show ?case
    using kn Suc.prems step
    by (simp add: upt_conv_Cons layer_start_Suc layer_size_def ranges_of_def Let_def add.assoc)
qed

lemma compile_offsets:
  "layer_offsets (compile M) = Placeholder 0 0 # map (ranges_of (layers M)) [1..<length (layers M)]"
  using compile_loop_eq [of 1 "layers M" "length (layers M)" "[Placeholder 0 0]"]
  by (simp add: compile_def layer_start_1)

lemma compile_layers: "layers (compile M) = layers M"
  by (simp add: compile_def)

lemma compile_nth:
  "1 \<le> l \<Longrightarrow> l < length (layers M) \<Longrightarrow> layer_offsets (compile M) ! l = ranges_of (layers M) l"
  by (cases l) (simp_all add: compile_offsets)

lemma layer_start_mono: "1 \<le> k \<Longrightarrow> k \<le> l \<Longrightarrow> layer_start ls k \<le> layer_start ls l"
proof (induction l)
  case 0 then show ?case by simp
next
  case (Suc l)
  show ?case
  proof (cases "k = Suc l")
    case True then show ?thesis by simp
  next
    case False
    with Suc have "layer_start ls k \<le> layer_start ls l" by simp
    moreover have "1 \<le> l" using Suc False by simp
    ultimately show ?thesis by (simp add: layer_start_Suc)
  qed
qed

lemma ranges_of_union:
  "1 \<le> l \<Longrightarrow> w_range (ranges_of ls l) \<union> b_range (ranges_of ls l)
     = {layer_start ls l..<layer_start ls (Suc l)}"
  by (auto simp: ranges_of_def layer_start_Suc layer_size_def)

lemma ranges_of_inter: "w_range (ranges_of ls l) \<inter> b_range (ranges_of ls l) = {}"
  by (auto simp: ranges_of_def)

lemma starts_union:
  "1 \<le> k \<Longrightarrow> (\<Union>l\<in>{1..<k}. {layer_start ls l..<layer_start ls (Suc l)}) = {0..<layer_start ls k}"
proof (induction k)
  case 0 then show ?case by simp
next
  case (Suc k)
  show ?case
  proof (cases "k = 0")
    case True then show ?thesis by (simp add: layer_start_1)
  next
    case False
    then have k1: "1 \<le> k" by simp
    have "{1..<Suc k} = insert k {1..<k}" using k1 by auto
    then have "(\<Union>l\<in>{1..<Suc k}. {layer_start ls l..<layer_start ls (Suc l)})
        = {layer_start ls k..<layer_start ls (Suc k)} \<union> {0..<layer_start ls k}"
      using Suc.IH [OF k1] by simp
    also have "\<dots> = {0..<layer_start ls (Suc k)}"
      using layer_start_mono [of k "Suc k" ls] k1 by auto
    finally show ?thesis .
  qed
qed

lemma compile_union:
  "(\<Union>l\<in>{1..<length (layers M)}.
      w_range (layer_offsets (compile M) ! l) \<union> b_range (layer_offsets (compile M) ! l))
   = {0..<total_param_length (layers M)}"
proof (cases "layers M = []")
  case True
  then show ?thesis by (simp add: total_param_length_def)
next
  case False
  then have n: "1 \<le> length (layers M)" by (cases "layers M") auto
  have "(\<Union>l\<in>{1..<length (layers M)}.
      w_range (layer_offsets (compile M) ! l) \<union> b_range (layer_offsets (compile M) ! l))
    = (\<Union>l\<in>{1..<length (layers M)}. {layer_start (layers M) l..<layer_start (layers M) (Suc l)})"
    by (intro SUP_cong refl) (simp add: compile_nth ranges_of_union)
  then show ?thesis
    using starts_union [OF n, of "layers M"] by (simp add: total_param_length_start)
qed

lemma compile_order:
  assumes "1 \<le> l" "l < l'" "l' < length (layers M)"
    and "i \<in> w_range (layer_offsets (compile M) ! l) \<union> b_range (layer_offsets (compile M) ! l)"
    and "j \<in> w_range (layer_offsets (compile M) ! l') \<union> b_range (layer_offsets (compile M) ! l')"
  shows "i < j"
proof -
  have "layer_start (layers M) (Suc l) \<le> layer_start (layers M) l'"
    using assms by (intro layer_start_mono) auto
  moreover have "i \<in> {layer_start (layers M) l..<layer_start (layers M) (Suc l)}"
    using assms compile_nth [of l M] ranges_of_union [of l "layers M"] by simp
  moreover have "j \<in> {layer_start (layers M) l'..<layer_start (layers M) (Suc l')}"
    using assms compile_nth [of l' M] ranges_of_union [of l' "layers M"] by simp
  ultimately show ?thesis by simp
qed

lemma compile_entry:
  assumes "1 \<le> l" "l < length (layers M)"
  shows "\<exists>w b. layer_offsets (compile M) ! l = Ranges w b
        \<and> fst w = (if l = 1 then 0 else snd (bias_range (layer_offsets (compile M) ! (l - 1))))
        \<and> snd w = fst w + dim (layers M ! l) * dim (layers M ! (l - 1))
        \<and> fst b = snd w
        \<and> snd b = fst b + dim (layers M ! l)"
proof (cases "l = 1")
  case True
  then show ?thesis
    using assms
    by (simp add: compile_nth ranges_of_def layer_start_1 layer_start_Suc layer_size_def mult.commute)
next
  case False
  then have "1 \<le> l - 1" "l - 1 < length (layers M)" "Suc (l - 1) = l" using assms by auto
  then have "layer_offsets (compile M) ! (l - 1) = ranges_of (layers M) (l - 1)"
    by (simp add: compile_nth)
  then have "snd (bias_range (layer_offsets (compile M) ! (l - 1))) = layer_start (layers M) l"
    using \<open>Suc (l - 1) = l\<close> by (simp add: ranges_of_def)
  then show ?thesis
    using assms False
    by (simp add: compile_nth ranges_of_def layer_start_Suc layer_size_def mult.commute)
qed

text \<open>
  Claim C4. After \<^verbatim>\<open>compile\<close> the entry of every layer \<open>l \<ge> 1\<close> is a weight range of
  length \<open>dim[l] * dim[l-1]\<close> followed at once by a bias range of length \<open>dim[l]\<close>; the
  first entry starts at 0 and every other one where the entry before it ends; the ranges
  of all layers together are the indices below the parameter length, the two ranges of
  a layer are disjoint, and every index of a layer is below every index of a later one.
\<close>

theorem compile_offset_table:
  "(\<forall>l\<in>{1..<length (layers M)}.
      \<exists>w b. layer_offsets (compile M) ! l = Ranges w b
        \<and> fst w = (if l = 1 then 0 else snd (bias_range (layer_offsets (compile M) ! (l - 1))))
        \<and> snd w = fst w + dim (layers M ! l) * dim (layers M ! (l - 1))
        \<and> fst b = snd w
        \<and> snd b = fst b + dim (layers M ! l))
   \<and> (\<Union>l\<in>{1..<length (layers M)}.
         w_range (layer_offsets (compile M) ! l) \<union> b_range (layer_offsets (compile M) ! l))
       = {0..<total_param_length (layers M)}
   \<and> (\<forall>l\<in>{1..<length (layers M)}.
         w_range (layer_offsets (compile M) ! l) \<inter> b_range (layer_offsets (compile M) ! l) = {})
   \<and> (\<forall>l\<in>{1..<length (layers M)}. \<forall>l'\<in>{1..<length (layers M)}. l < l' \<longrightarrow>
         (\<forall>i\<in>w_range (layer_offsets (compile M) ! l) \<union> b_range (layer_offsets (compile M) ! l).
          \<forall>j\<in>w_range (layer_offsets (compile M) ! l') \<union> b_range (layer_offsets (compile M) ! l').
            i < j))"
proof (intro conjI ballI impI)
  fix l assume "l \<in> {1..<length (layers M)}"
  then show "\<exists>w b. layer_offsets (compile M) ! l = Ranges w b
        \<and> fst w = (if l = 1 then 0 else snd (bias_range (layer_offsets (compile M) ! (l - 1))))
        \<and> snd w = fst w + dim (layers M ! l) * dim (layers M ! (l - 1))
        \<and> fst b = snd w
        \<and> snd b = fst b + dim (layers M ! l)"
    using compile_entry [of l M] by simp
next
  show "(\<Union>l\<in>{1..<length (layers M)}.
         w_range (layer_offsets (compile M) ! l) \<union> b_range (layer_offsets (compile M) ! l))
       = {0..<total_param_length (layers M)}"
    by (rule compile_union)
next
  fix l assume "l \<in> {1..<length (layers M)}"
  then show "w_range (layer_offsets (compile M) ! l) \<inter> b_range (layer_offsets (compile M) ! l) = {}"
    by (simp add: compile_nth ranges_of_inter)
next
  fix l l' i j
  assume "l \<in> {1..<length (layers M)}" "l' \<in> {1..<length (layers M)}" "l < l'"
    "i \<in> w_range (layer_offsets (compile M) ! l) \<union> b_range (layer_offsets (compile M) ! l)"
    "j \<in> w_range (layer_offsets (compile M) ! l') \<union> b_range (layer_offsets (compile M) ! l')"
  then show "i < j" using compile_order [of l l' M i j] by simp
qed

theorem compile_offset_table_witness:
  "(2::nat) \<in> {1..<length (layers (add_calls [(3, ''relu'', 2), (1, ''sigmoid'', 0)] NnModel_init))}
   \<and> layer_offsets (compile (add_calls [(3, ''relu'', 2), (1, ''sigmoid'', 0)] NnModel_init))
       = [Placeholder 0 0, Ranges (0, 6) (6, 9), Ranges (9, 12) (12, 13)]
   \<and> (\<exists>w b. layer_offsets (compile (add_calls [(3, ''relu'', 2), (1, ''sigmoid'', 0)] NnModel_init)) ! 2 = Ranges w b
        \<and> fst w = snd (bias_range (layer_offsets (compile (add_calls [(3, ''relu'', 2), (1, ''sigmoid'', 0)] NnModel_init)) ! 1))
        \<and> snd w = fst w + 1 * 3 \<and> fst b = snd w \<and> snd b = fst b + 1)
   \<and> total_param_length (layers (add_calls [(3, ''relu'', 2), (1, ''sigmoid'', 0)] NnModel_init)) = 13"
proof -
  let ?M = "add_calls [(3, ''relu'', 2), (1, ''sigmoid'', 0)] NnModel_init"
  have l: "map dim (layers ?M) = [2, 3, 1]"
    by (simp add: add_calls_def add_def NnModel_init_def activations_def)
  have len: "length (layers ?M) = 3" using arg_cong [OF l, of length] by simp
  have d: "dim (layers ?M ! 2) = 1" "dim (layers ?M ! 1) = 3"
    using arg_cong [OF l, of "\<lambda>xs. xs ! 2"] arg_cong [OF l, of "\<lambda>xs. xs ! 1"] len by simp_all
  have mem: "(2::nat) \<in> {1..<length (layers ?M)}" using len by simp
  have offs: "layer_offsets (compile ?M) = [Placeholder 0 0, Ranges (0, 6) (6, 9), Ranges (9, 12) (12, 13)]"
    by (simp add: compile_def add_calls_def add_def NnModel_init_def activations_def upt_conv_Cons Let_def)
  have tot: "total_param_length (layers ?M) = 13"
    by (simp add: total_param_length_def add_calls_def add_def NnModel_init_def activations_def upt_conv_Cons)
  from compile_offset_table [of ?M] mem
  have "\<exists>w b. layer_offsets (compile ?M) ! 2 = Ranges w b
        \<and> fst w = (if (2::nat) = 1 then 0 else snd (bias_range (layer_offsets (compile ?M) ! (2 - 1))))
        \<and> snd w = fst w + dim (layers ?M ! 2) * dim (layers ?M ! (2 - 1))
        \<and> fst b = snd w
        \<and> snd b = fst b + dim (layers ?M ! 2)"
    by blast
  then have "\<exists>w b. layer_offsets (compile ?M) ! 2 = Ranges w b
        \<and> fst w = snd (bias_range (layer_offsets (compile ?M) ! 1))
        \<and> snd w = fst w + 1 * 3 \<and> fst b = snd w \<and> snd b = fst b + 1"
    using d by simp
  then show ?thesis using mem offs tot by blast
qed

section \<open>The optimizer\<close>

lemma gd_params_total:
  assumes "\<And>p. \<exists>c g. cost_fn p = Inr (c, g) \<and> length g = length p"
  shows "\<exists>pf. gd_params a cost_fn p0 n = Inr pf"
proof (induction n)
  case 0 show ?case by simp
next
  case (Suc n)
  then obtain p where p: "gd_params a cost_fn p0 n = Inr p" by blast
  obtain c g where "cost_fn p = Inr (c, g)" "length g = length p" using assms by blast
  then show ?case using p by (simp add: gd_step_def)
qed

lemma vsub_scaled: "vsub p (map (\<lambda>x. a * x) g) = gd_step a p g"
proof -
  have eq: "length g = length p \<Longrightarrow>
      map2 (-) p (map (\<lambda>x. a * x) g) = map (\<lambda>j. p ! j - a * g ! j) [0..<length p]"
    by (rule nth_equalityI) simp_all
  have hd0: "length xs = 1 \<Longrightarrow> hd xs = xs ! 0" for xs :: "real list"
    by (cases xs) auto
  have one: "length p = 1 \<Longrightarrow>
      map (\<lambda>y. hd p - y) (map (\<lambda>x. a * x) g) = map (\<lambda>j. p ! 0 - a * g ! j) [0..<length g]"
    by (rule nth_equalityI) (simp_all add: hd0)
  have two: "length g = 1 \<Longrightarrow>
      map (\<lambda>x. x - hd (map (\<lambda>x. a * x) g)) p = map (\<lambda>j. p ! j - a * g ! 0) [0..<length p]"
    using hd0 [of "map (\<lambda>x. a * x) g"] by (intro nth_equalityI) simp_all
  show ?thesis
    using eq one two by (auto simp: vsub_def gd_step_def)
qed

lemma optimize_loop_spec:
  assumes "gd_params a f p0 k = Inr p" "k \<le> n"
  shows "(\<forall>e. gd_params a f p0 n = Inl e \<longrightarrow> optimize_loop a f [k..<n] p costs = Inl e)
       \<and> (\<forall>pf. gd_params a f p0 n = Inr pf \<longrightarrow>
            (\<exists>cs. optimize_loop a f [k..<n] p costs = Inr (pf, costs @ cs)
               \<and> map Inr cs = map (gd_cost a f p0) (filter (\<lambda>i. i mod 100 = 0) [k..<n])))"
  using assms
proof (induction "n - k" arbitrary: k p costs)
  case 0
  then show ?case by simp
next
  case (Suc d)
  then have kn: "k < n" by simp
  have upt: "[k..<n] = k # [Suc k..<n]" using kn by (simp add: upt_conv_Cons)
  have later: "\<And>e. gd_params a f p0 (Suc k) = Inl e \<Longrightarrow> gd_params a f p0 n = Inl e"
  proof -
    fix e assume h: "gd_params a f p0 (Suc k) = Inl e"
    have "Suc k \<le> j \<Longrightarrow> gd_params a f p0 j = Inl e" for j
    proof (induction j)
      case 0 then show ?case by simp
    next
      case (Suc j)
      then show ?case using h by (cases "Suc k = Suc j") auto
    qed
    then show "gd_params a f p0 n = Inl e" using kn by simp
  qed
  show ?case
  proof (cases "gd_params a f p0 (Suc k)")
    case (Inl e)
    then have n: "gd_params a f p0 n = Inl e" by (rule later)
    have "optimize_loop a f [k..<n] p costs = Inl e"
      using Inl Suc.prems(1) unfolding upt
      by (cases "f p") (auto simp: bind_err_def vsub_scaled split: sum.splits prod.splits)
    then show ?thesis using n by simp
  next
    case (Inr p')
    then obtain c g where fp: "f p = Inr (c, g)" and v: "vsub p (map (\<lambda>x. a * x) g) = Inr p'"
      using Suc.prems(1) by (cases "f p") (auto simp: vsub_scaled split: prod.splits)
    have gc: "gd_cost a f p0 k = Inr c"
      using Suc.prems(1) fp by (simp add: gd_cost_def)
    have step: "optimize_loop a f [k..<n] p costs
        = optimize_loop a f [Suc k..<n] p' (if k mod 100 = 0 then costs @ [c] else costs)"
      unfolding upt using fp v by simp
    have IH: "(\<forall>e. gd_params a f p0 n = Inl e \<longrightarrow> optimize_loop a f [Suc k..<n] p' cs' = Inl e)
       \<and> (\<forall>pf. gd_params a f p0 n = Inr pf \<longrightarrow>
            (\<exists>cs. optimize_loop a f [Suc k..<n] p' cs' = Inr (pf, cs' @ cs)
               \<and> map Inr cs = map (gd_cost a f p0) (filter (\<lambda>i. i mod 100 = 0) [Suc k..<n])))" for cs'
      using Suc.hyps(2) kn Inr by (intro Suc.hyps(1)) auto
    show ?thesis
    proof (cases "k mod 100 = 0")
      case True
      show ?thesis
        unfolding step using IH [of "costs @ [c]"] True gc
        by (auto simp: upt)
    next
      case False
      show ?thesis
        unfolding step using IH [of costs] False
        by (auto simp: upt)
    qed
  qed
qed

text \<open>
  Claim C6. \<^verbatim>\<open>optimize\<close> returns the parameters after exactly \<open>iters\<close> steps of the
  iteration \<open>gd_params\<close>, with the costs \<open>cost\<^sub>i\<close> of the steps \<open>i < iters\<close>,
  \<open>i mod 100 = 0\<close>, in increasing order of \<open>i\<close>; it raises exactly when a step of the
  iteration raises (the cost function does, or the gradient does not broadcast), and
  never stops early. A step on a gradient of the length of the parameters keeps the
  length and sets every entry to \<open>params\<^sub>i[j] - \<alpha> \<cdot> grad\<^sub>i[j]\<close>, and a cost function that
  always returns such a gradient makes every step succeed.
\<close>

theorem optimize_spec:
  "(\<forall>e. gd_params (alpha self) cost_fn p0 (nat (iters self)) = Inl e \<longrightarrow>
        optimize self cost_fn p0 = Inl e)
   \<and> (\<forall>pf. gd_params (alpha self) cost_fn p0 (nat (iters self)) = Inr pf \<longrightarrow>
        (\<exists>costs. optimize self cost_fn p0 = Inr (pf, costs)
           \<and> map Inr costs = map (gd_cost (alpha self) cost_fn p0)
                               (filter (\<lambda>i. i mod 100 = 0) [0..<nat (iters self)])))
   \<and> (\<forall>i p c g. gd_params (alpha self) cost_fn p0 i = Inr p \<and> cost_fn p = Inr (c, g)
          \<and> length g = length p \<longrightarrow>
        (\<exists>p'. gd_params (alpha self) cost_fn p0 (Suc i) = Inr p'
           \<and> gd_cost (alpha self) cost_fn p0 i = Inr c
           \<and> length p' = length p
           \<and> (\<forall>j<length p. p' ! j = p ! j - alpha self * g ! j)))
   \<and> ((\<forall>p. \<exists>c g. cost_fn p = Inr (c, g) \<and> length g = length p) \<longrightarrow>
        (\<exists>pf. gd_params (alpha self) cost_fn p0 (nat (iters self)) = Inr pf))"
proof -
  have "\<forall>p. \<exists>c g. cost_fn p = Inr (c, g) \<and> length g = length p \<Longrightarrow>
        \<exists>pf. gd_params (alpha self) cost_fn p0 (nat (iters self)) = Inr pf"
    by (rule gd_params_total) blast
  moreover have "gd_params (alpha self) cost_fn p0 0 = Inr p0" by simp
  moreover have "\<forall>i p c g. gd_params (alpha self) cost_fn p0 i = Inr p \<and> cost_fn p = Inr (c, g)
          \<and> length g = length p \<longrightarrow>
        (\<exists>p'. gd_params (alpha self) cost_fn p0 (Suc i) = Inr p'
           \<and> gd_cost (alpha self) cost_fn p0 i = Inr c
           \<and> length p' = length p
           \<and> (\<forall>j<length p. p' ! j = p ! j - alpha self * g ! j))"
    by (simp add: gd_step_def gd_cost_def)
  ultimately show ?thesis
    using optimize_loop_spec [of "alpha self" cost_fn p0 0 p0 "nat (iters self)" "[]"]
    unfolding optimize_def by (intro conjI) simp_all
qed

theorem optimize_spec_witness:
  "gd_params (1 / 2) (\<lambda>p. Inr (sum_list p, map (\<lambda>x. 1) p)) [4] (nat 2) = Inr [3]
   \<and> (\<exists>costs. optimize \<lparr>alpha = 1 / 2, debug = False, iters = 2\<rparr>
                 (\<lambda>p. Inr (sum_list p, map (\<lambda>x. 1) p)) [4] = Inr ([3], costs)
        \<and> map Inr costs = [Inr 4 :: error + real])"
proof -
  let ?f = "\<lambda>p :: real list. Inr (sum_list p, map (\<lambda>x. 1) p) :: error + (real \<times> real list)"
  let ?self = "\<lparr>alpha = 1 / 2, debug = False, iters = 2\<rparr>"
  have n: "nat 2 = Suc (Suc 0)" by simp
  have g: "gd_params (1 / 2) ?f [4] (nat 2) = Inr [3]"
    unfolding n by (simp add: gd_step_def)
  have c: "map (gd_cost (alpha ?self) ?f [4]) (filter (\<lambda>i. i mod 100 = 0) [0..<nat (iters ?self)])
      = [Inr 4]"
  proof -
    have "iters ?self = 2" by simp
    then have u: "[0..<nat (iters ?self)] = [0, Suc 0]"
      by (simp add: numeral_2_eq_2)
    show ?thesis unfolding u by (simp add: gd_cost_def)
  qed
  have "\<exists>costs. optimize ?self ?f [4] = Inr ([3], costs)
           \<and> map Inr costs = map (gd_cost (alpha ?self) ?f [4])
                               (filter (\<lambda>i. i mod 100 = 0) [0..<nat (iters ?self)])"
    using optimize_spec [of ?self ?f "[4]"] g by simp
  then show ?thesis using g c by simp
qed

section \<open>Activations\<close>

lemma mk_array_1_1: "mk_array (Suc 0) (Suc 0) f = NDArray 1 1 [f 0 0]"
  by (simp add: mk_array_def)

text \<open>
  Claim C7 at the boundary. With \<open>Z = [[0]]\<close> and \<open>dA = [[1]]\<close> the backward rule of
  relu returns \<open>[[0]]\<close>, since it tests \<open>Z > 0\<close>, while \<open>dA \<odot> relu_derv Z\<close> is
  \<open>[[1]]\<close>, since the derivative tests \<open>z \<ge> 0\<close>.
\<close>

theorem relu_backward_at_zero:
  "relu_backward (NDArray 1 1 [1]) (NDArray 1 1 [0]) = Inr (NDArray 1 1 [0])
   \<and> bind_err (relu_derv (NDArray 1 1 [0])) (\<lambda>D. bop (*) (NDArray 1 1 [1]) D) = Inr (NDArray 1 1 [1])"
  by (simp add: relu_backward_def relu_derv_def bop_def bdim_def amap_def mk_array_1_1 bref_def aref_def)

text \<open>Away from zero entries of \<open>Z\<close> the two agree.\<close>

lemma relu_backward_nonzero:
  "0 \<notin> set (elems Z) \<Longrightarrow> relu_backward dA Z = bind_err (relu_derv Z) (\<lambda>D. bop (*) dA D)"
proof -
  assume "0 \<notin> set (elems Z)"
  then have eq: "map (\<lambda>x. if x > 0 then 1 else 0) (elems Z) = map (\<lambda>x. if x \<ge> 0 then (1::real) else 0) (elems Z)"
    by (intro map_cong) (auto simp: less_le)
  show ?thesis by (simp add: relu_backward_def relu_derv_def amap_def eq)
qed

section \<open>The parameter codec\<close>

lemma py_nth_in [simp]: "i < length xs \<Longrightarrow> py_nth xs i = Inr (xs ! i)"
  by (simp add: py_nth_def)

lemma py_prev_in [simp]: "1 \<le> i \<Longrightarrow> i \<le> length xs \<Longrightarrow> py_prev xs i = Inr (xs ! (i - 1))"
  by (simp add: py_prev_def py_nth_def)

lemma set_slice_exact:
  "a \<le> b \<Longrightarrow> b \<le> length xs \<Longrightarrow> length vs = b - a \<Longrightarrow>
     set_slice xs a b vs = Inr (take a xs @ vs @ drop b xs)"
  by (simp add: set_slice_def Let_def min_absorb1 max_absorb2)

lemma get_slice_exact:
  "a \<le> b \<Longrightarrow> a \<le> length xs \<Longrightarrow> length vs = b - a \<Longrightarrow>
     get_slice (take a xs @ vs @ ys) a b = vs"
  by (simp add: get_slice_def min_absorb2)

lemma layer_start_le_total:
  "1 \<le> l \<Longrightarrow> l \<le> length ls \<Longrightarrow> layer_start ls l \<le> total_param_length ls"
  by (simp add: total_param_length_start layer_start_mono)

lemma pack_params_compile:
  assumes l: "1 \<le> l" "l < length (layers M)"
    and W: "shape W = (dim (layers M ! l), dim (layers M ! (l - 1)))" "wf_array W"
    and b: "shape b = (dim (layers M ! l), 1)" "wf_array b"
    and g: "total_param_length (layers M) \<le> length g"
  shows "pack_params (compile M) l g W b =
           Inr (take (layer_start (layers M) l) g @ elems W @ elems b
                  @ drop (layer_start (layers M) (Suc l)) g)"
proof -
  let ?s = "layer_start (layers M) l"
  let ?p = "dim (layers M ! (l - 1)) * dim (layers M ! l)"
  let ?d = "dim (layers M ! l)"
  have lenW: "length (elems W) = ?p" using W by (simp add: shape_def wf_array_def mult.commute)
  have lenb: "length (elems b) = ?d" using b by (simp add: shape_def wf_array_def)
  have S: "layer_start (layers M) (Suc l) = ?s + ?p + ?d"
    using l by (simp add: layer_start_Suc layer_size_def)
  have le: "layer_start (layers M) (Suc l) \<le> length g"
    using layer_start_le_total [of "Suc l" "layers M"] l g by simp
  have off: "py_nth (layer_offsets (compile M)) l = Inr (ranges_of (layers M) l)"
    using l compile_nth [of l M] by (simp add: py_nth_def compile_offsets)
  have s1: "set_slice g ?s (?s + ?p) (elems W) = Inr (take ?s g @ elems W @ drop (?s + ?p) g)"
    using le S lenW by (intro set_slice_exact) auto
  let ?g1 = "take ?s g @ elems W @ drop (?s + ?p) g"
  have len1: "length ?g1 = length g" using le S lenW by simp
  have s2: "set_slice ?g1 (?s + ?p) (?s + ?p + ?d) (elems b)
      = Inr (take (?s + ?p) ?g1 @ elems b @ drop (?s + ?p + ?d) ?g1)"
    using le S lenb len1 by (intro set_slice_exact) auto
  have t: "take (?s + ?p) ?g1 = take ?s g @ elems W" using le S lenW by simp
  have d: "drop (?s + ?p + ?d) ?g1 = drop (?s + ?p + ?d) g"
    using le S lenW by (simp add: add.commute add.left_commute)
  show ?thesis
    using l W b off s1 s2 t d S
    by (simp add: pack_params_def compile_layers ranges_of_def)
qed

lemma unpack_params_compile:
  assumes l: "1 \<le> l" "l < length (layers M)"
    and g: "total_param_length (layers M) \<le> length params"
  shows "unpack_params (compile M) l params =
           Inr (NDArray (dim (layers M ! l)) (dim (layers M ! (l - 1)))
                  (take (dim (layers M ! (l - 1)) * dim (layers M ! l))
                     (drop (layer_start (layers M) l) params)),
                NDArray (dim (layers M ! l)) 1
                  (take (dim (layers M ! l))
                     (drop (layer_start (layers M) l
                            + dim (layers M ! (l - 1)) * dim (layers M ! l)) params)))"
proof -
  let ?s = "layer_start (layers M) l"
  let ?p = "dim (layers M ! (l - 1)) * dim (layers M ! l)"
  let ?d = "dim (layers M ! l)"
  have S: "layer_start (layers M) (Suc l) = ?s + ?p + ?d"
    using l by (simp add: layer_start_Suc layer_size_def)
  have le: "?s + ?p + ?d \<le> length params"
    using layer_start_le_total [of "Suc l" "layers M"] l g S by simp
  have off: "py_nth (layer_offsets (compile M)) l = Inr (ranges_of (layers M) l)"
    using l compile_nth [of l M] by (simp add: py_nth_def compile_offsets)
  have r1: "reshape2 (get_slice params ?s (?s + ?p)) ?d (dim (layers M ! (l - 1)))
      = Inr (NDArray ?d (dim (layers M ! (l - 1))) (take ?p (drop ?s params)))"
    using le by (simp add: reshape2_def get_slice_def mult.commute)
  have r2: "reshape2 (get_slice params (?s + ?p) (?s + ?p + ?d)) ?d 1
      = Inr (NDArray ?d 1 (take ?d (drop (?s + ?p) params)))"
    using le by (simp add: reshape2_def get_slice_def)
  show ?thesis
    using l off r1 r2 S
    by (simp add: unpack_params_def compile_layers ranges_of_def)
qed

text \<open>
  Claim C5. On a compiled model, for a layer \<open>l \<ge> 1\<close>, packing a weight matrix of shape
  \<open>(dim[l], dim[l-1])\<close> and a bias of shape \<open>(dim[l], 1)\<close> into the zero vector of the
  full parameter length succeeds, and unpacking layer \<open>l\<close> from the result returns the
  two arrays, shapes and entries. With any other shape of \<open>W\<close> or \<open>b\<close>, \<^verbatim>\<open>pack_params\<close>
  fails its assertion, whatever the vector. \<^verbatim>\<open>unpack_params\<close> only reads: it has no
  write to the vector, and the model of it returns the two arrays and no vector.
\<close>

theorem pack_unpack_roundtrip:
  assumes "1 \<le> l" "l < length (layers M)"
  shows "(wf_array W \<and> wf_array b
          \<and> shape W = (dim (layers M ! l), dim (layers M ! (l - 1)))
          \<and> shape b = (dim (layers M ! l), 1) \<longrightarrow>
            (\<exists>p. pack_params (compile M) l (replicate (total_param_length (layers M)) 0) W b = Inr p
               \<and> length p = total_param_length (layers M)
               \<and> unpack_params (compile M) l p = Inr (W, b)))
       \<and> (shape W \<noteq> (dim (layers M ! l), dim (layers M ! (l - 1)))
          \<or> shape b \<noteq> (dim (layers M ! l), 1) \<longrightarrow>
            pack_params (compile M) l params W b = Inl AssertionError)"
proof (intro conjI impI)
  assume h: "wf_array W \<and> wf_array b
          \<and> shape W = (dim (layers M ! l), dim (layers M ! (l - 1)))
          \<and> shape b = (dim (layers M ! l), 1)"
  let ?n = "total_param_length (layers M)"
  let ?g = "replicate ?n (0::real)"
  let ?s = "layer_start (layers M) l"
  let ?p = "dim (layers M ! (l - 1)) * dim (layers M ! l)"
  let ?d = "dim (layers M ! l)"
  let ?q = "take ?s ?g @ elems W @ elems b @ drop (layer_start (layers M) (Suc l)) ?g"
  have lenW: "length (elems W) = ?p" using h by (simp add: shape_def wf_array_def mult.commute)
  have lenb: "length (elems b) = ?d" using h by (simp add: shape_def wf_array_def)
  have S: "layer_start (layers M) (Suc l) = ?s + ?p + ?d"
    using assms by (simp add: layer_start_Suc layer_size_def)
  have le: "layer_start (layers M) (Suc l) \<le> ?n"
    using layer_start_le_total [of "Suc l" "layers M"] assms by simp
  have pk: "pack_params (compile M) l ?g W b = Inr ?q"
    using assms h by (intro pack_params_compile) auto
  have len: "length ?q = ?n" using le S lenW lenb by simp
  have ts: "length (take ?s ?g) = ?s" using le S by simp
  have w: "take ?p (drop ?s ?q) = elems W" using ts lenW by simp
  have "drop (?s + ?p) ?q = elems b @ drop (layer_start (layers M) (Suc l)) ?g"
    using ts lenW by (simp add: add.commute)
  then have bb: "take ?d (drop (?s + ?p) ?q) = elems b" using lenb by simp
  have WW: "NDArray ?d (dim (layers M ! (l - 1))) (elems W) = W"
    using h by (cases W) (simp add: shape_def)
  have BB: "NDArray ?d 1 (elems b) = b"
    using h by (cases b) (simp add: shape_def)
  have "unpack_params (compile M) l ?q = Inr (W, b)"
    using unpack_params_compile [of l M ?q] assms len w bb WW BB by simp
  then show "\<exists>p. pack_params (compile M) l ?g W b = Inr p \<and> length p = ?n
               \<and> unpack_params (compile M) l p = Inr (W, b)"
    using pk len by blast
next
  assume "shape W \<noteq> (dim (layers M ! l), dim (layers M ! (l - 1)))
          \<or> shape b \<noteq> (dim (layers M ! l), 1)"
  then show "pack_params (compile M) l params W b = Inl AssertionError"
    using assms by (auto simp: pack_params_def compile_layers)
qed

theorem pack_unpack_roundtrip_witness:
  "(1::nat) \<le> 1
   \<and> 1 < length (layers (add_calls [(3, ''relu'', 2), (1, ''sigmoid'', 0)] NnModel_init))
   \<and> wf_array (NDArray 3 2 [1, 2, 3, 4, 5, 6]) \<and> wf_array (NDArray 3 1 [7, 8, 9])
   \<and> shape (NDArray 3 2 [1, 2, 3, 4, 5, 6])
       = (dim (layers (add_calls [(3, ''relu'', 2), (1, ''sigmoid'', 0)] NnModel_init) ! 1),
          dim (layers (add_calls [(3, ''relu'', 2), (1, ''sigmoid'', 0)] NnModel_init) ! (1 - 1)))
   \<and> shape (NDArray 3 1 [7, 8, 9])
       = (dim (layers (add_calls [(3, ''relu'', 2), (1, ''sigmoid'', 0)] NnModel_init) ! 1), 1)
   \<and> (\<exists>p. pack_params (compile (add_calls [(3, ''relu'', 2), (1, ''sigmoid'', 0)] NnModel_init)) 1
             (replicate (total_param_length
                (layers (add_calls [(3, ''relu'', 2), (1, ''sigmoid'', 0)] NnModel_init))) 0)
             (NDArray 3 2 [1, 2, 3, 4, 5, 6]) (NDArray 3 1 [7, 8, 9]) = Inr p
         \<and> unpack_params (compile (add_calls [(3, ''relu'', 2), (1, ''sigmoid'', 0)] NnModel_init)) 1 p
             = Inr (NDArray 3 2 [1, 2, 3, 4, 5, 6], NDArray 3 1 [7, 8, 9]))
   \<and> pack_params (compile (add_calls [(3, ''relu'', 2), (1, ''sigmoid'', 0)] NnModel_init)) 1
        [] (NDArray 2 3 [1, 2, 3, 4, 5, 6]) (NDArray 3 1 [7, 8, 9]) = Inl AssertionError"
proof -
  let ?M = "add_calls [(3, ''relu'', 2), (1, ''sigmoid'', 0)] NnModel_init"
  let ?W = "NDArray 3 2 [1, 2, 3, 4, 5, 6]"
  let ?b = "NDArray 3 1 [7, 8, 9]"
  have l: "map dim (layers ?M) = [2, 3, 1]"
    by (simp add: add_calls_def add_def NnModel_init_def activations_def)
  have len: "length (layers ?M) = 3" using arg_cong [OF l, of length] by simp
  have d: "dim (layers ?M ! 1) = 3" "dim (layers ?M ! 0) = 2"
    using arg_cong [OF l, of "\<lambda>xs. xs ! 1"] arg_cong [OF l, of "\<lambda>xs. xs ! 0"] len by simp_all
  have h1: "(1::nat) \<le> 1" by simp
  have h2: "1 < length (layers ?M)" using len by simp
  have wf: "wf_array ?W" "wf_array ?b" by (simp_all add: wf_array_def)
  have sh: "shape ?W = (dim (layers ?M ! 1), dim (layers ?M ! (1 - 1)))"
    "shape ?b = (dim (layers ?M ! 1), 1)"
    using d by (simp_all add: shape_def)
  have sh': "shape (NDArray 2 3 [1, 2, 3, 4, 5, 6]) \<noteq> (dim (layers ?M ! 1), dim (layers ?M ! (1 - 1)))"
    using d by (simp add: shape_def)
  note t = pack_unpack_roundtrip [OF h1 h2]
  have a: "\<exists>p. pack_params (compile ?M) 1 (replicate (total_param_length (layers ?M)) 0) ?W ?b = Inr p
         \<and> unpack_params (compile ?M) 1 p = Inr (?W, ?b)"
    using t [of ?W ?b] wf sh by blast
  have c: "pack_params (compile ?M) 1 [] (NDArray 2 3 [1, 2, 3, 4, 5, 6]) ?b = Inl AssertionError"
    using t [of "NDArray 2 3 [1, 2, 3, 4, 5, 6]" ?b "[]"] sh' by blast
  show ?thesis using h1 h2 wf sh a c by blast
qed

section \<open>Arrays\<close>

lemma mk_array_sel [simp]:
  "nrows (mk_array r c f) = r" "ncols (mk_array r c f) = c"
  "length (elems (mk_array r c f)) = r * c"
  by (simp_all add: mk_array_def)

lemma wf_mk_array [simp]: "wf_array (mk_array r c f)"
  by (simp add: wf_array_def)

lemma shape_mk_array [simp]: "shape (mk_array r c f) = (r, c)"
  by (simp add: shape_def)

lemma index_less: "i < r \<Longrightarrow> j < c \<Longrightarrow> i * c + j < r * (c::nat)"
proof -
  assume a: "i < r" "j < c"
  then have "i * c + j < i * c + c" by simp
  also have "\<dots> = Suc i * c" by simp
  also have "\<dots> \<le> r * c" using a by (intro mult_le_mono1) simp
  finally show ?thesis .
qed

lemma aref_mk_array [simp]: "i < r \<Longrightarrow> j < c \<Longrightarrow> aref (mk_array r c f) i j = f i j"
  by (simp add: aref_def mk_array_def index_less)

lemma mk_array_cong:
  assumes "\<And>i j. i < r \<Longrightarrow> j < c \<Longrightarrow> f i j = g i j"
  shows "mk_array r c f = mk_array r c g"
proof -
  have "f (k div c) (k mod c) = g (k div c) (k mod c)" if "k < r * c" for k
  proof -
    have c: "0 < c" using that by (cases c) auto
    have "k div c < r" using that by (simp add: less_mult_imp_div_less)
    then show ?thesis using c by (intro assms) auto
  qed
  then show ?thesis by (simp add: mk_array_def)
qed

lemma mk_array_aref: "wf_array A \<Longrightarrow> mk_array (nrows A) (ncols A) (aref A) = A"
proof -
  assume wf: "wf_array A"
  have "map (\<lambda>k. elems A ! (k div ncols A * ncols A + k mod ncols A)) [0..<nrows A * ncols A]
      = map (\<lambda>k. elems A ! k) [0..<length (elems A)]"
    using wf by (simp add: wf_array_def)
  also have "\<dots> = elems A" by (rule map_nth)
  finally show ?thesis by (cases A) (simp add: mk_array_def aref_def)
qed

lemma amap_sel [simp]:
  "nrows (amap f A) = nrows A" "ncols (amap f A) = ncols A" "shape (amap f A) = shape A"
  by (simp_all add: amap_def shape_def)

lemma wf_amap [simp]: "wf_array (amap f A) = wf_array A"
  by (simp add: wf_array_def amap_def)

lemma aref_amap:
  "wf_array A \<Longrightarrow> i < nrows A \<Longrightarrow> j < ncols A \<Longrightarrow> aref (amap f A) i j = f (aref A i j)"
  by (simp add: aref_def amap_def wf_array_def index_less)

lemma amap_mk_array: "amap f (mk_array r c g) = mk_array r c (\<lambda>i j. f (g i j))"
  by (simp add: amap_def mk_array_def)

lemma amap_as_mk_array:
  "wf_array A \<Longrightarrow> amap f A = mk_array (nrows A) (ncols A) (\<lambda>i j. f (aref A i j))"
  using amap_mk_array [of f "nrows A" "ncols A" "aref A"] by (simp add: mk_array_aref)

lemma sum_list_upt: "sum_list (map f [0..<n]) = (\<Sum>k<n. (f k :: real))"
  by (induction n) simp_all

lemma bref_in: "i < nrows A \<Longrightarrow> j < ncols A \<Longrightarrow> bref A i j = aref A i j"
  by (auto simp: bref_def)

lemma bref_row: "nrows A = 1 \<Longrightarrow> j < ncols A \<Longrightarrow> bref A i j = aref A 0 j"
  by (auto simp: bref_def)

lemma bref_col: "ncols A = 1 \<Longrightarrow> i < nrows A \<Longrightarrow> bref A i j = aref A i 0"
  by (auto simp: bref_def)

lemma bop_same:
  "nrows A = nrows B \<Longrightarrow> ncols A = ncols B \<Longrightarrow>
     bop f A B = Inr (mk_array (nrows A) (ncols A) (\<lambda>i j. f (aref A i j) (aref B i j)))"
  by (auto simp: bop_def bdim_def bref_in intro!: mk_array_cong)

lemma bop_col:
  "nrows A = nrows B \<Longrightarrow> ncols B = 1 \<Longrightarrow>
     bop f A B = Inr (mk_array (nrows A) (ncols A) (\<lambda>i j. f (aref A i j) (aref B i 0)))"
  by (auto simp: bop_def bdim_def bref_in bref_col intro!: mk_array_cong)

lemma bop_row:
  "nrows A = 1 \<Longrightarrow> ncols A = ncols B \<Longrightarrow>
     bop f A B = Inr (mk_array (nrows B) (ncols B) (\<lambda>i j. f (aref A 0 j) (aref B i j)))"
  by (auto simp: bop_def bdim_def bref_in bref_row intro!: mk_array_cong)

lemma dot_eq:
  "ncols A = nrows B \<Longrightarrow>
     dot A B = Inr (mk_array (nrows A) (ncols B) (\<lambda>i j. \<Sum>k<ncols A. aref A i k * aref B k j))"
  by (simp add: dot_def sum_list_upt)

lemma arr_T_sel [simp]: "nrows (arr_T A) = ncols A" "ncols (arr_T A) = nrows A"
  by (simp_all add: arr_T_def)

lemma aref_arr_T [simp]: "i < ncols A \<Longrightarrow> j < nrows A \<Longrightarrow> aref (arr_T A) i j = aref A j i"
  by (simp add: arr_T_def)

section \<open>The forward pass\<close>

lemma activations_registered: "activations s = Some act \<Longrightarrow> registered act"
  by (auto simp: activations_def registered_def split: if_splits)

lemma registered_value:
  "registered act \<Longrightarrow> shape (fst act Z) = shape Z \<and> wf_array (fst act Z) = wf_array Z"
  by (auto simp: registered_def relu_def sigmoid_def)

lemma add_well_built:
  assumes "well_built M" "add units act input_dim M = (Inr u, M')"
  shows "well_built M'"
proof -
  obtain a where a: "activations act = Some a"
    using assms(2) by (cases "activations act") (auto simp: add_def Let_def)
  have M': "M' = snd (add units act input_dim M)" using assms(2) by simp
  have L: "layers M' = layers M
     @ (if input_dim \<noteq> 0 \<and> layers M = [] then [\<lparr>dim = input_dim, activation = None\<rparr>] else [])
     @ [\<lparr>dim = units, activation = Some a\<rparr>]"
    unfolding M' add_layers using a by simp
  have r: "registered a" using a by (rule activations_registered)
  show ?thesis
    unfolding well_built_def
  proof (intro allI impI)
    fix l assume l: "1 \<le> l \<and> l < length (layers M')"
    show "\<exists>act. activation (layers M' ! l) = Some act \<and> registered act"
    proof (cases "l < length (layers M)")
      case True
      then have "layers M' ! l = layers M ! l" by (simp add: L nth_append)
      then show ?thesis using assms(1) l True by (simp add: well_built_def)
    next
      case False
      then have "layers M' ! l = \<lparr>dim = units, activation = Some a\<rparr>"
        using l by (auto simp: L nth_append split: if_splits)
      then show ?thesis using r by simp
    qed
  qed
qed

lemma add_all_well_built: "well_built M \<Longrightarrow> add_all cs M = Inr M' \<Longrightarrow> well_built M'"
proof (induction cs arbitrary: M)
  case Nil then show ?case by simp
next
  case (Cons c cs)
  obtain u a i where c: "c = (u, a, i)" by (cases c) auto
  obtain r M1 where r: "add u a i M = (r, M1)" by (cases "add u a i M") auto
  show ?case
  proof (cases r)
    case (Inl e)
    then show ?thesis using Cons.prems r c by simp
  next
    case (Inr x)
    then have "well_built M1" using add_well_built [OF Cons.prems(1)] r by blast
    moreover have "add_all cs M1 = Inr M'" using Cons.prems(2) r c Inr by simp
    ultimately show ?thesis by (rule Cons.IH)
  qed
qed

lemma build_Inr:
  "build cs = Inr M \<Longrightarrow> \<exists>M0. M = compile M0 \<and> well_built M0"
proof -
  assume b: "build cs = Inr M"
  then obtain M0 where M0: "add_all cs NnModel_init = Inr M0" "M = compile M0"
    by (cases "add_all cs NnModel_init") (auto simp: build_def)
  have "well_built NnModel_init" by (simp add: well_built_def NnModel_init_def)
  then have "well_built M0" using M0(1) by (rule add_all_well_built)
  then show ?thesis using M0(2) by blast
qed

lemma linear_forward:
  assumes "ncols W = nrows A_prev" "nrows b = nrows W" "ncols b = 1"
  shows "bind_err (dot W A_prev) (\<lambda>WA. bop (+) WA b) = Inr (linear_spec W A_prev b)"
proof -
  let ?WA = "mk_array (nrows W) (ncols A_prev) (\<lambda>i j. \<Sum>k<ncols W. aref W i k * aref A_prev k j)"
  have d: "dot W A_prev = Inr ?WA" using assms by (simp add: dot_eq)
  have "bop (+) ?WA b = Inr (mk_array (nrows ?WA) (ncols ?WA) (\<lambda>i j. aref ?WA i j + aref b i 0))"
    using assms by (intro bop_col) simp_all
  also have "mk_array (nrows ?WA) (ncols ?WA) (\<lambda>i j. aref ?WA i j + aref b i 0)
      = linear_spec W A_prev b"
    unfolding linear_spec_def by (simp, intro mk_array_cong) simp
  finally show ?thesis using d by simp
qed

lemma unpack_shapes:
  assumes l: "1 \<le> l" "l < length (layers M)"
    and g: "total_param_length (layers M) \<le> length params"
  shows "\<exists>W b. unpack_params (compile M) l params = Inr (W, b)
           \<and> wf_array W \<and> shape W = (dim (layers M ! l), dim (layers M ! (l - 1)))
           \<and> wf_array b \<and> shape b = (dim (layers M ! l), 1)"
proof -
  let ?s = "layer_start (layers M) l"
  let ?p = "dim (layers M ! (l - 1)) * dim (layers M ! l)"
  let ?d = "dim (layers M ! l)"
  have S: "layer_start (layers M) (Suc l) = ?s + ?p + ?d"
    using l by (simp add: layer_start_Suc layer_size_def)
  have le: "?s + ?p + ?d \<le> length params"
    using layer_start_le_total [of "Suc l" "layers M"] l g S by simp
  show ?thesis
    unfolding unpack_params_compile [OF l g]
    using le by (simp add: wf_array_def shape_def mult.commute)
qed

lemma forward_step:
  assumes wb: "well_built M" and l: "1 \<le> l" "l < length (layers M)"
    and g: "total_param_length (layers M) \<le> length params"
    and A: "caches_ok M (ncols X) l A" and Z: "length Z = l"
  shows "\<exists>W b act. unpack_params (compile M) l params = Inr (W, b)
           \<and> activation (layers M ! l) = Some act
           \<and> caches_ok M (ncols X) (Suc l) (A @ [fst act (linear_spec W (A ! (l - 1)) b)])
           \<and> forward_loop (compile M) params X (l # ls) A Z
               = forward_loop (compile M) params X ls
                   (A @ [fst act (linear_spec W (A ! (l - 1)) b)])
                   (Z @ [Some (linear_spec W (A ! (l - 1)) b)])"
proof -
  obtain W b where u: "unpack_params (compile M) l params = Inr (W, b)"
    and W: "wf_array W" "shape W = (dim (layers M ! l), dim (layers M ! (l - 1)))"
    and b: "wf_array b" "shape b = (dim (layers M ! l), 1)"
    using unpack_shapes [OF l g] by blast
  obtain act where act: "activation (layers M ! l) = Some act" "registered act"
    using wb l by (auto simp: well_built_def)
  have lenA: "length A = l" using A by (simp add: caches_ok_def)
  have Ap: "wf_array (A ! (l - 1))" "shape (A ! (l - 1)) = (dim (layers M ! (l - 1)), ncols X)"
    using A l by (simp_all add: caches_ok_def)
  let ?Zl = "linear_spec W (A ! (l - 1)) b"
  have lin: "bind_err (dot W (A ! (l - 1))) (\<lambda>WA. bop (+) WA b) = Inr ?Zl"
    using W b Ap by (intro linear_forward) (simp_all add: shape_def)
  then obtain WA where WA: "dot W (A ! (l - 1)) = Inr WA" "bop (+) WA b = Inr ?Zl"
    by (cases "dot W (A ! (l - 1))") auto
  have shZ: "shape ?Zl = (dim (layers M ! l), ncols X)" "wf_array ?Zl"
    using W Ap by (simp_all add: linear_spec_def shape_def)
  have shA: "shape (fst act ?Zl) = (dim (layers M ! l), ncols X)" "wf_array (fst act ?Zl)"
    using registered_value [OF act(2), of ?Zl] shZ by simp_all
  have ok: "caches_ok M (ncols X) (Suc l) (A @ [fst act ?Zl])"
    using A shA by (auto simp: caches_ok_def nth_append less_Suc_eq)
  have prev: "py_prev A l = Inr (A ! (l - 1))" using l lenA by simp
  have "forward_loop (compile M) params X (l # ls) A Z
      = forward_loop (compile M) params X ls (A @ [fst act ?Zl]) (Z @ [Some ?Zl])"
    using l u act(1) prev WA lenA Z shA
    by (simp add: compile_layers Let_def nth_append)
  then show ?thesis using u act(1) ok by blast
qed

lemma forward_loop_spec:
  assumes wb: "well_built M" and g: "total_param_length (layers M) \<le> length params"
    and n: "n = length (layers M)"
  shows "1 \<le> k \<Longrightarrow> k \<le> n \<Longrightarrow> caches_ok M (ncols X) k A \<Longrightarrow> length Z = k \<Longrightarrow>
     \<exists>A' Z'. forward_loop (compile M) params X [k..<n] A Z = Inr (A', Z')
        \<and> caches_ok M (ncols X) n A' \<and> length Z' = n \<and> take k A' = A \<and> take k Z' = Z
        \<and> (\<forall>l. k \<le> l \<and> l < n \<longrightarrow>
              (\<exists>W b act. unpack_params (compile M) l params = Inr (W, b)
                 \<and> activation (layers M ! l) = Some act
                 \<and> Z' ! l = Some (linear_spec W (A' ! (l - 1)) b)
                 \<and> A' ! l = fst act (linear_spec W (A' ! (l - 1)) b)))"
proof (induction "n - k" arbitrary: k A Z)
  case 0
  then have "k = n" by simp
  then show ?case using 0 by (auto simp: caches_ok_def)
next
  case (Suc d)
  then have kn: "k < n" by simp
  have upt: "[k..<n] = k # [Suc k..<n]" using kn by (simp add: upt_conv_Cons)
  have lenA: "length A = k" using Suc.prems by (simp add: caches_ok_def)
  obtain W b act where u: "unpack_params (compile M) k params = Inr (W, b)"
    and act: "activation (layers M ! k) = Some act"
    and ok: "caches_ok M (ncols X) (Suc k) (A @ [fst act (linear_spec W (A ! (k - 1)) b)])"
    and step: "forward_loop (compile M) params X (k # [Suc k..<n]) A Z
               = forward_loop (compile M) params X [Suc k..<n]
                   (A @ [fst act (linear_spec W (A ! (k - 1)) b)])
                   (Z @ [Some (linear_spec W (A ! (k - 1)) b)])"
    using forward_step [OF wb Suc.prems(1) _ g Suc.prems(3,4), of "[Suc k..<n]"] kn n by auto
  let ?Zk = "linear_spec W (A ! (k - 1)) b"
  let ?A1 = "A @ [fst act ?Zk]"
  let ?Z1 = "Z @ [Some ?Zk]"
  have "\<exists>A' Z'. forward_loop (compile M) params X [Suc k..<n] ?A1 ?Z1 = Inr (A', Z')
        \<and> caches_ok M (ncols X) n A' \<and> length Z' = n \<and> take (Suc k) A' = ?A1
        \<and> take (Suc k) Z' = ?Z1
        \<and> (\<forall>l. Suc k \<le> l \<and> l < n \<longrightarrow>
              (\<exists>W b act. unpack_params (compile M) l params = Inr (W, b)
                 \<and> activation (layers M ! l) = Some act
                 \<and> Z' ! l = Some (linear_spec W (A' ! (l - 1)) b)
                 \<and> A' ! l = fst act (linear_spec W (A' ! (l - 1)) b)))"
    using Suc.hyps(2) kn ok Suc.prems(4) by (intro Suc.hyps(1)) auto
  then obtain A' Z' where r: "forward_loop (compile M) params X [Suc k..<n] ?A1 ?Z1 = Inr (A', Z')"
    and ok': "caches_ok M (ncols X) n A'" and lenZ': "length Z' = n"
    and tA: "take (Suc k) A' = ?A1" and tZ: "take (Suc k) Z' = ?Z1"
    and later: "\<forall>l. Suc k \<le> l \<and> l < n \<longrightarrow>
              (\<exists>W b act. unpack_params (compile M) l params = Inr (W, b)
                 \<and> activation (layers M ! l) = Some act
                 \<and> Z' ! l = Some (linear_spec W (A' ! (l - 1)) b)
                 \<and> A' ! l = fst act (linear_spec W (A' ! (l - 1)) b))"
    by blast
  have nthA: "A' ! i = ?A1 ! i" if "i < Suc k" for i
    using that nth_take [of i "Suc k" A'] tA by simp
  have nthZ: "Z' ! i = ?Z1 ! i" if "i < Suc k" for i
    using that nth_take [of i "Suc k" Z'] tZ by simp
  have Ak: "A' ! k = fst act ?Zk" using nthA [of k] lenA by (simp add: nth_append)
  have Zk: "Z' ! k = Some ?Zk" using nthZ [of k] Suc.prems(4) by (simp add: nth_append)
  have Ap: "A' ! (k - 1) = A ! (k - 1)"
    using nthA [of "k - 1"] lenA Suc.prems(1) by (simp add: nth_append)
  have tA': "take k A' = A"
  proof -
    have "take k A' = take k (take (Suc k) A')" by (simp add: min_def)
    then show ?thesis using tA lenA by simp
  qed
  have tZ': "take k Z' = Z"
  proof -
    have "take k Z' = take k (take (Suc k) Z')" by (simp add: min_def)
    then show ?thesis using tZ Suc.prems(4) by simp
  qed
  have here: "\<exists>W b act. unpack_params (compile M) k params = Inr (W, b)
                 \<and> activation (layers M ! k) = Some act
                 \<and> Z' ! k = Some (linear_spec W (A' ! (k - 1)) b)
                 \<and> A' ! k = fst act (linear_spec W (A' ! (k - 1)) b)"
    using u act Ak Zk Ap by auto
  have all: "\<forall>l. k \<le> l \<and> l < n \<longrightarrow>
              (\<exists>W b act. unpack_params (compile M) l params = Inr (W, b)
                 \<and> activation (layers M ! l) = Some act
                 \<and> Z' ! l = Some (linear_spec W (A' ! (l - 1)) b)
                 \<and> A' ! l = fst act (linear_spec W (A' ! (l - 1)) b))"
  proof (intro allI impI)
    fix l assume l: "k \<le> l \<and> l < n"
    show "\<exists>W b act. unpack_params (compile M) l params = Inr (W, b)
                 \<and> activation (layers M ! l) = Some act
                 \<and> Z' ! l = Some (linear_spec W (A' ! (l - 1)) b)
                 \<and> A' ! l = fst act (linear_spec W (A' ! (l - 1)) b)"
    proof (cases "l = k")
      case True then show ?thesis using here by simp
    next
      case False
      then have "Suc k \<le> l \<and> l < n" using l by simp
      then show ?thesis using later by blast
    qed
  qed
  have "forward_loop (compile M) params X [k..<n] A Z = Inr (A', Z')"
    unfolding upt step by (rule r)
  then show ?case using ok' lenZ' tA' tZ' all by blast
qed

text \<open>
  Claim C3. For a model built by \<^verbatim>\<open>add\<close> calls and compiled, a parameter vector that
  holds all the blocks and a batch \<open>X\<close> of shape \<open>(dim[0], m)\<close>, the forward pass returns
  caches \<open>A\<close> and \<open>Z\<close> with one entry per layer, \<open>A[0] = X\<close>, the placeholder at
  \<open>Z[0]\<close>, and for every \<open>l \<ge> 1\<close>: \<open>Z[l] = W\<^sub>l \<cdot> A[l-1] + b\<^sub>l\<close> for the pair unpacked at
  layer \<open>l\<close>, \<open>A[l]\<close> the value function of the layer's activation at \<open>Z[l]\<close>, and
  \<open>A[l]\<close> of shape \<open>(dim[l], m)\<close>. The pass has no write to the parameter vector: the
  model of it returns the two caches only.
\<close>

theorem propagate_forward_spec:
  assumes "build cs = Inr M" "layers M \<noteq> []"
    and "total_param_length (layers M) \<le> length params"
    and "wf_array X" "shape X = (dim (layers M ! 0), m)"
  shows "\<exists>A Z. propagate_forward M params X = Inr (A, Z)
      \<and> length A = length (layers M) \<and> length Z = length (layers M)
      \<and> A ! 0 = X \<and> Z ! 0 = None
      \<and> (\<forall>l\<in>{1..<length (layers M)}.
            \<exists>W b act. unpack_params M l params = Inr (W, b)
              \<and> activation (layers M ! l) = Some act
              \<and> Z ! l = Some (linear_spec W (A ! (l - 1)) b)
              \<and> A ! l = fst act (linear_spec W (A ! (l - 1)) b))
      \<and> (\<forall>l\<in>{0..<length (layers M)}. shape (A ! l) = (dim (layers M ! l), m))"
proof -
  obtain M0 where M: "M = compile M0" and wb: "well_built M0"
    using build_Inr [OF assms(1)] by blast
  have L: "layers M = layers M0" by (simp add: M compile_layers)
  have m: "ncols X = m" using assms(5) by (simp add: shape_def)
  have n1: "1 \<le> length (layers M0)" using assms(2) L by (cases "layers M0") auto
  have ok: "caches_ok M0 (ncols X) 1 [X]"
    using assms(4,5) L m by (simp add: caches_ok_def)
  obtain A Z where r: "forward_loop (compile M0) params X [1..<length (layers M0)] [X] [None]
        = Inr (A, Z)"
    and okA: "caches_ok M0 (ncols X) (length (layers M0)) A"
    and lenZ: "length Z = length (layers M0)"
    and tA: "take 1 A = [X]" and tZ: "take 1 Z = [None]"
    and all: "\<forall>l. 1 \<le> l \<and> l < length (layers M0) \<longrightarrow>
              (\<exists>W b act. unpack_params (compile M0) l params = Inr (W, b)
                 \<and> activation (layers M0 ! l) = Some act
                 \<and> Z ! l = Some (linear_spec W (A ! (l - 1)) b)
                 \<and> A ! l = fst act (linear_spec W (A ! (l - 1)) b))"
    using forward_loop_spec [OF wb _ refl, of params 1 X "[X]" "[None]"] assms(3) L n1 ok
    by auto
  have lenA: "length A = length (layers M0)" using okA by (simp add: caches_ok_def)
  have A0: "A ! 0 = X" using tA lenA n1 by (cases A) auto
  have Z0: "Z ! 0 = None" using tZ lenZ n1 by (cases Z) auto
  have sh: "\<forall>l\<in>{0..<length (layers M)}. shape (A ! l) = (dim (layers M ! l), m)"
    using okA L m by (simp add: caches_ok_def)
  have pf: "propagate_forward M params X = Inr (A, Z)"
    using r by (simp add: propagate_forward_def M compile_layers)
  have all': "\<forall>l\<in>{1..<length (layers M)}.
            \<exists>W b act. unpack_params M l params = Inr (W, b)
              \<and> activation (layers M ! l) = Some act
              \<and> Z ! l = Some (linear_spec W (A ! (l - 1)) b)
              \<and> A ! l = fst act (linear_spec W (A ! (l - 1)) b)"
    using all unfolding L M [symmetric] by simp
  show ?thesis using pf lenA lenZ A0 Z0 all' sh L by auto
qed

theorem propagate_forward_spec_witness:
  "build [(1, ''relu'', 1)] = Inr (compile (add_calls [(1, ''relu'', 1)] NnModel_init))
   \<and> layers (compile (add_calls [(1, ''relu'', 1)] NnModel_init)) \<noteq> []
   \<and> total_param_length (layers (compile (add_calls [(1, ''relu'', 1)] NnModel_init)))
       \<le> length [2, 3 :: real]
   \<and> wf_array (NDArray 1 1 [5])
   \<and> shape (NDArray 1 1 [5])
       = (dim (layers (compile (add_calls [(1, ''relu'', 1)] NnModel_init)) ! 0), 1)
   \<and> (\<exists>A Z. propagate_forward (compile (add_calls [(1, ''relu'', 1)] NnModel_init)) [2, 3]
               (NDArray 1 1 [5]) = Inr (A, Z)
         \<and> A ! 0 = NDArray 1 1 [5] \<and> Z ! 0 = None \<and> length A = 2
         \<and> shape (A ! 1) = (1, 1))"
proof -
  let ?M = "compile (add_calls [(1, ''relu'', 1)] NnModel_init)"
  let ?X = "NDArray 1 1 [5]"
  have l: "map dim (layers ?M) = [1, 1]"
    by (simp add: compile_layers add_calls_def add_def NnModel_init_def activations_def)
  have len: "length (layers ?M) = 2" using arg_cong [OF l, of length] by simp
  have d: "dim (layers ?M ! 0) = 1" "dim (layers ?M ! 1) = 1"
    using arg_cong [OF l, of "\<lambda>xs. xs ! 0"] arg_cong [OF l, of "\<lambda>xs. xs ! 1"] len by simp_all
  have h1: "build [(1, ''relu'', 1)] = Inr ?M"
    by (simp add: build_def add_calls_def add_def NnModel_init_def activations_def)
  have h2: "layers ?M \<noteq> []" using len by auto
  have h3: "total_param_length (layers ?M) \<le> length [2, 3 :: real]"
    using d len by (simp add: total_param_length_def numeral_2_eq_2)
  have h4: "wf_array ?X" by (simp add: wf_array_def)
  have h5: "shape ?X = (dim (layers ?M ! 0), 1)" using d by (simp add: shape_def)
  obtain A Z where r: "propagate_forward ?M [2, 3] ?X = Inr (A, Z)"
    "length A = length (layers ?M)" "A ! 0 = ?X" "Z ! 0 = None"
    "\<forall>l\<in>{0..<length (layers ?M)}. shape (A ! l) = (dim (layers ?M ! l), 1)"
    using propagate_forward_spec [OF h1 h2 h3 h4 h5] by blast
  have "shape (A ! 1) = (1, 1)" using r(5) len d by simp
  then have "\<exists>A Z. propagate_forward ?M [2, 3] ?X = Inr (A, Z)
         \<and> A ! 0 = ?X \<and> Z ! 0 = None \<and> length A = 2 \<and> shape (A ! 1) = (1, 1)"
    using r len by auto
  then show ?thesis using h1 h2 h3 h4 h5 by blast
qed

section \<open>The cost and the backward pass\<close>

lemma sum_block: "(\<Sum>k<r * c. (g k :: real)) = (\<Sum>i<r. \<Sum>j<c. g (i * c + j :: nat))"
proof (induction r)
  case 0 show ?case by simp
next
  case (Suc r)
  have "(\<Sum>k<Suc r * c. g k) = (\<Sum>k = 0..<r * c. g k) + (\<Sum>k = r * c..<r * c + c. g k)"
    by (simp add: sum.atLeastLessThan_concat atLeast0LessThan [symmetric] add.commute)
  also have "(\<Sum>k = r * c..<r * c + c. g k) = (\<Sum>j = 0..<c. g (j + r * c))"
    using sum.shift_bounds_nat_ivl [of g 0 "r * c" c] by (simp add: add.commute)
  finally show ?case using Suc by (simp add: atLeast0LessThan add.commute)
qed

lemma sum_list_elems:
  assumes "wf_array A"
  shows "sum_list (map f (elems A)) = (\<Sum>i<nrows A. \<Sum>j<ncols A. (f (aref A i j) :: real))"
proof -
  have "sum_list (map f (elems A)) = (\<Sum>k<length (elems A). f (elems A ! k))"
    by (simp add: sum_list_sum_nth atLeast0LessThan)
  also have "\<dots> = (\<Sum>k<nrows A * ncols A. f (elems A ! k))"
    using assms by (simp add: wf_array_def)
  also have "\<dots> = (\<Sum>i<nrows A. \<Sum>j<ncols A. f (elems A ! (i * ncols A + j)))"
    using sum_block [where r = "nrows A" and c = "ncols A" and g = "\<lambda>k. f (elems A ! k)"] by simp
  finally show ?thesis by (simp add: aref_def)
qed

lemma sum_all_squares: "wf_array W \<Longrightarrow> sum_all (amap (\<lambda>w. w ^ 2) W) = sum_sq W"
  by (simp add: sum_all_def amap_def sum_list_elems sum_sq_def)

lemma sum_all_mk_array: "sum_all (mk_array r c f) = (\<Sum>i<r. \<Sum>j<c. f i j)"
proof -
  have "sum_all (mk_array r c f) = (\<Sum>i<r. \<Sum>j<c. aref (mk_array r c f) i j)"
    using sum_list_elems [of "mk_array r c f" "\<lambda>x. x"] by (simp add: sum_all_def)
  then show ?thesis by simp
qed

lemma bop_amap:
  assumes "wf_array A" "wf_array B" "nrows A = nrows B" "ncols A = ncols B"
  shows "bop f (amap p A) (amap q B)
     = Inr (mk_array (nrows A) (ncols A) (\<lambda>i j. f (p (aref A i j)) (q (aref B i j))))"
proof -
  have "bop f (amap p A) (amap q B)
     = Inr (mk_array (nrows A) (ncols A) (\<lambda>i j. f (aref (amap p A) i j) (aref (amap q B) i j)))"
    using assms bop_same [of "amap p A" "amap q B" f] by simp
  moreover have "mk_array (nrows A) (ncols A) (\<lambda>i j. f (aref (amap p A) i j) (aref (amap q B) i j))
     = mk_array (nrows A) (ncols A) (\<lambda>i j. f (p (aref A i j)) (q (aref B i j)))"
    using assms by (intro mk_array_cong) (simp add: aref_amap)
  ultimately show ?thesis by simp
qed

lemma amap_ident: "amap (\<lambda>x. x) A = A"
  by (cases A) (simp add: amap_def)

lemma amap_amap: "amap f (amap g A) = amap (\<lambda>x. f (g x)) A"
  by (simp add: amap_def)

lemma cost_loop_eq:
  assumes g: "total_param_length (layers M) \<le> length params"
    and n: "n = length (layers M)" and m: "0 < m"
  shows "1 \<le> k \<Longrightarrow> k \<le> n \<Longrightarrow>
     cost_loop lambd (compile M) params m [k..<n] J
       = Inr (J + (\<Sum>l = k..<n. (lambd / (2 * real m)) * sum_sq (layer_W (compile M) params l)))"
proof (induction "n - k" arbitrary: k J)
  case 0
  then show ?case by simp
next
  case (Suc d)
  then have kn: "k < n" by simp
  have upt: "[k..<n] = k # [Suc k..<n]" using kn by (simp add: upt_conv_Cons)
  obtain W b where u: "unpack_params (compile M) k params = Inr (W, b)" and W: "wf_array W"
    using unpack_shapes [of k M params] Suc.prems(1) kn n g by blast
  have lw: "layer_W (compile M) params k = W" using u by (simp add: layer_W_def)
  have IH: "cost_loop lambd (compile M) params m [Suc k..<n] J'
       = Inr (J' + (\<Sum>l = Suc k..<n. (lambd / (2 * real m)) * sum_sq (layer_W (compile M) params l)))"
    for J'
    using Suc.hyps(2) kn by (intro Suc.hyps(1)) auto
  have "cost_loop lambd (compile M) params m [k..<n] J
      = cost_loop lambd (compile M) params m [Suc k..<n]
          (J + (lambd / (2 * real m)) * sum_sq W)"
    unfolding upt using u m W by (simp add: sum_all_squares)
  then show ?case
    using IH kn lw by (simp add: sum.atLeast_Suc_lessThan add.assoc)
qed

lemma compute_cost_eq:
  assumes AL: "wf_array AL" "shape AL = (1, m)" and Y: "wf_array Y" "shape Y = (1, m)"
    and m: "0 < m" and g: "total_param_length (layers M) \<le> length params"
    and ne: "layers M \<noteq> []"
  shows "compute_cost lambd (compile M) params AL Y
     = Inr (cross_entropy AL Y + l2_penalty lambd (compile M) params m)"
proof -
  have sh: "nrows AL = 1" "ncols AL = m" "nrows Y = 1" "ncols Y = m"
    using AL Y by (simp_all add: shape_def)
  have t1: "bop (*) Y (amap ln AL) = Inr (mk_array 1 m (\<lambda>i j. aref Y i j * ln (aref AL i j)))"
    using bop_amap [OF Y(1) AL(1), of "(*)" "\<lambda>x. x" ln] sh by (simp add: amap_ident)
  have t2: "bop (*) (amap (\<lambda>y. 1 - y) Y) (amap ln (amap (\<lambda>a. 1 - a) AL))
      = Inr (mk_array 1 m (\<lambda>i j. (1 - aref Y i j) * ln (1 - aref AL i j)))"
    using bop_amap [OF Y(1) AL(1), of "(*)" "\<lambda>y. 1 - y" "\<lambda>a. ln (1 - a)"] sh
    by (simp add: amap_amap)
  let ?T1 = "mk_array 1 m (\<lambda>i j. aref Y i j * ln (aref AL i j))"
  let ?T2 = "mk_array 1 m (\<lambda>i j. (1 - aref Y i j) * ln (1 - aref AL i j))"
  let ?S = "mk_array 1 m (\<lambda>i j. aref Y i j * ln (aref AL i j)
                               + (1 - aref Y i j) * ln (1 - aref AL i j))"
  have "bop (+) ?T1 ?T2 = Inr (mk_array 1 m (\<lambda>i j. aref ?T1 i j + aref ?T2 i j))"
    using bop_same [of ?T1 ?T2 "(+)"] by simp
  moreover have "mk_array 1 m (\<lambda>i j. aref ?T1 i j + aref ?T2 i j) = ?S"
    by (intro mk_array_cong) simp
  ultimately have s: "bop (+) ?T1 ?T2 = Inr ?S" by simp
  have "sum_all (amap uminus ?S)
      = (\<Sum>j<m. - (aref Y 0 j * ln (aref AL 0 j) + (1 - aref Y 0 j) * ln (1 - aref AL 0 j)))"
    by (simp add: amap_mk_array sum_all_mk_array)
  then have ce: "(1 / real m) * sum_all (amap uminus ?S) = cross_entropy AL Y"
    using sh by (simp add: cross_entropy_def)
  have n1: "1 \<le> length (layers M)" using ne by (cases "layers M") auto
  have loop: "cost_loop lambd (compile M) params m [1..<length (layers M)] J
      = Inr (J + l2_penalty lambd (compile M) params m)" for J
    using cost_loop_eq [OF g refl m, of 1 lambd J] n1
    by (simp add: l2_penalty_def compile_layers)
  show ?thesis
    unfolding compute_cost_def Let_def t1 t2 bind_err_Inr s
    using m sh ce loop by (simp add: compile_layers)
qed

lemma linear_backward_eq:
  assumes dZ: "ncols dZ = ncols A_prev" "nrows dZ = nrows W"
    and W: "wf_array W" "ncols W = nrows A_prev"
    and m: "0 < ncols A_prev"
  shows "linear_backward lambd dZ A_prev W b
     = Inr (dW_spec lambd dZ A_prev W, db_spec dZ, dA_prev_spec W dZ)"
proof -
  let ?m = "ncols A_prev"
  let ?D = "mk_array (nrows dZ) (nrows A_prev) (\<lambda>i j. \<Sum>k<?m. aref dZ i k * aref A_prev j k)"
  have "dot dZ (arr_T A_prev)
      = Inr (mk_array (nrows dZ) (nrows A_prev)
               (\<lambda>i j. \<Sum>k<ncols dZ. aref dZ i k * aref (arr_T A_prev) k j))"
    using dZ by (simp add: dot_eq)
  moreover have "mk_array (nrows dZ) (nrows A_prev)
               (\<lambda>i j. \<Sum>k<ncols dZ. aref dZ i k * aref (arr_T A_prev) k j) = ?D"
    using dZ by (intro mk_array_cong sum.cong) simp_all
  ultimately have d: "dot dZ (arr_T A_prev) = Inr ?D" by simp
  let ?D1 = "amap (\<lambda>x. (1 / real ?m) * x) ?D"
  let ?W1 = "amap (\<lambda>w. (lambd / real ?m) * w) W"
  have "iadd ?D1 ?W1
      = Inr (mk_array (nrows dZ) (nrows A_prev) (\<lambda>i j. aref ?D1 i j + bref ?W1 i j))"
    using dZ W by (simp add: iadd_def)
  moreover have "mk_array (nrows dZ) (nrows A_prev) (\<lambda>i j. aref ?D1 i j + bref ?W1 i j)
      = dW_spec lambd dZ A_prev W"
    unfolding dW_spec_def using dZ W
    by (intro mk_array_cong) (simp add: amap_mk_array bref_in aref_amap)
  ultimately have i: "iadd ?D1 ?W1 = Inr (dW_spec lambd dZ A_prev W)" by simp
  have db: "amap (\<lambda>x. (1 / real ?m) * x) (sum_axis1 dZ) = db_spec dZ"
    using dZ by (simp add: sum_axis1_def amap_mk_array db_spec_def sum_list_upt)
  have "dot (arr_T W) dZ
      = Inr (mk_array (ncols W) (ncols dZ)
               (\<lambda>i j. \<Sum>k<nrows W. aref (arr_T W) i k * aref dZ k j))"
    using dZ by (simp add: dot_eq)
  moreover have "mk_array (ncols W) (ncols dZ)
               (\<lambda>i j. \<Sum>k<nrows W. aref (arr_T W) i k * aref dZ k j) = dA_prev_spec W dZ"
    unfolding dA_prev_spec_def by (intro mk_array_cong sum.cong) simp_all
  ultimately have p: "dot (arr_T W) dZ = Inr (dA_prev_spec W dZ)" by simp
  show ?thesis
    unfolding linear_backward_def Let_def d bind_err_Inr i db p using m by simp
qed

lemma registered_backward:
  assumes "registered act" "wf_array dA" "wf_array Z" "shape dA = shape Z"
  shows "\<exists>dZ. snd (snd act) dA Z = Inr dZ \<and> wf_array dZ \<and> shape dZ = shape Z"
proof -
  have sh: "nrows dA = nrows Z" "ncols dA = ncols Z" using assms(4) by (simp_all add: shape_def)
  consider "act = (relu, relu_derv, relu_backward)"
    | "act = (sigmoid, sigmoid_derv, sigmoid_backward)"
    using assms(1) by (auto simp: registered_def)
  then show ?thesis
  proof cases
    case 1
    then show ?thesis
      using sh bop_same [of dA "amap (\<lambda>x. if x > 0 then 1 else 0) Z" "(*)"]
      by (simp add: relu_backward_def shape_def)
  next
    case 2
    let ?a = "sigmoid Z"
    have a: "nrows ?a = nrows Z" "ncols ?a = ncols Z" by (simp_all add: sigmoid_def)
    obtain t where t: "bop (*) dA ?a = Inr t" "nrows t = nrows Z" "ncols t = ncols Z"
      using sh a bop_same [of dA ?a "(*)"] by simp
    have "bop (*) t (amap (\<lambda>x. 1 - x) ?a)
        = Inr (mk_array (nrows t) (ncols t)
                 (\<lambda>i j. aref t i j * aref (amap (\<lambda>x. 1 - x) ?a) i j))"
      using t a by (intro bop_same) simp_all
    then show ?thesis
      using 2 t by (simp add: sigmoid_backward_def Let_def shape_def)
  qed
qed

lemma seed_eq:
  assumes AL: "wf_array AL" and Y: "wf_array Y" "nrows Y = 1" "ncols Y = ncols AL"
  shows "bind_err (bop (/) Y AL) (\<lambda>t1.
         bind_err (bop (/) (amap (\<lambda>y. 1 - y) Y)
                     (amap (\<lambda>a. max a (1 / 10 ^ 8)) (amap (\<lambda>a. 1 - a) AL))) (\<lambda>t2.
           bop (+) (amap uminus t1) t2))
       = Inr (seed_spec AL Y)"
proof -
  let ?r = "nrows AL" and ?m = "ncols AL"
  let ?T1 = "mk_array ?r ?m (\<lambda>i j. aref Y 0 j / aref AL i j)"
  let ?Y1 = "amap (\<lambda>y. 1 - y) Y"
  let ?A1 = "amap (\<lambda>a. max a (1 / 10 ^ 8)) (amap (\<lambda>a. 1 - a) AL)"
  let ?T2 = "mk_array ?r ?m (\<lambda>i j. (1 - aref Y 0 j) / max (1 - aref AL i j) (1 / 10 ^ 8))"
  have t1: "bop (/) Y AL = Inr ?T1" using Y by (simp add: bop_row)
  have "bop (/) ?Y1 ?A1 = Inr (mk_array (nrows ?A1) (ncols ?A1) (\<lambda>i j. aref ?Y1 0 j / aref ?A1 i j))"
    using Y by (intro bop_row) simp_all
  moreover have "mk_array (nrows ?A1) (ncols ?A1) (\<lambda>i j. aref ?Y1 0 j / aref ?A1 i j) = ?T2"
    using Y AL by (simp, intro mk_array_cong) (simp add: aref_amap amap_amap)
  ultimately have t2: "bop (/) ?Y1 ?A1 = Inr ?T2" by simp
  have "bop (+) (amap uminus ?T1) ?T2
      = Inr (mk_array ?r ?m (\<lambda>i j. aref (amap uminus ?T1) i j + aref ?T2 i j))"
    using bop_same [of "amap uminus ?T1" ?T2 "(+)"] by simp
  moreover have "mk_array ?r ?m (\<lambda>i j. aref (amap uminus ?T1) i j + aref ?T2 i j) = seed_spec AL Y"
    unfolding seed_spec_def by (intro mk_array_cong) (simp add: amap_mk_array)
  ultimately show ?thesis using t1 t2 by simp
qed

lemma backward_step:
  assumes wb: "well_built M" and l: "1 \<le> l" "l < length (layers M)"
    and g: "total_param_length (layers M) \<le> length params"
    and gg: "total_param_length (layers M) \<le> length grad"
    and A: "caches_ok M m (length (layers M)) A" and Z: "zcache_ok M m Z"
    and dA: "wf_array dA" "shape dA = (dim (layers M ! l), m)" and m: "0 < m"
  shows "\<exists>W b act Zl dZ. unpack_params (compile M) l params = Inr (W, b)
           \<and> activation (layers M ! l) = Some act \<and> Z ! l = Some Zl
           \<and> snd (snd act) dA Zl = Inr dZ
           \<and> wf_array (dA_prev_spec W dZ)
           \<and> shape (dA_prev_spec W dZ) = (dim (layers M ! (l - 1)), m)
           \<and> wf_array (dW_spec lambd dZ (A ! (l - 1)) W)
           \<and> shape (dW_spec lambd dZ (A ! (l - 1)) W)
               = (dim (layers M ! l), dim (layers M ! (l - 1)))
           \<and> wf_array (db_spec dZ) \<and> shape (db_spec dZ) = (dim (layers M ! l), 1)
           \<and> backward_loop lambd (compile M) params A Z (l # ls) dA grad
               = backward_loop lambd (compile M) params A Z ls (dA_prev_spec W dZ)
                   (take (layer_start (layers M) l) grad
                    @ elems (dW_spec lambd dZ (A ! (l - 1)) W) @ elems (db_spec dZ)
                    @ drop (layer_start (layers M) (Suc l)) grad)"
proof -
  obtain W b where u: "unpack_params (compile M) l params = Inr (W, b)"
    and W: "wf_array W" "shape W = (dim (layers M ! l), dim (layers M ! (l - 1)))"
    using unpack_shapes [OF l g] by blast
  obtain act where act: "activation (layers M ! l) = Some act" "registered act"
    using wb l by (auto simp: well_built_def)
  obtain Zl where Zl: "Z ! l = Some Zl" "wf_array Zl" "shape Zl = (dim (layers M ! l), m)"
    using Z l by (auto simp: zcache_ok_def)
  have lenZ: "length Z = length (layers M)" using Z by (simp add: zcache_ok_def)
  have lenA: "length A = length (layers M)" using A by (simp add: caches_ok_def)
  have Al: "shape (A ! l) = (dim (layers M ! l), m)" using A l by (simp add: caches_ok_def)
  have Ap: "wf_array (A ! (l - 1))" "shape (A ! (l - 1)) = (dim (layers M ! (l - 1)), m)"
    using A l by (simp_all add: caches_ok_def)
  obtain dZ where dZ: "snd (snd act) dA Zl = Inr dZ" "wf_array dZ" "shape dZ = shape Zl"
    using registered_backward [OF act(2) dA(1) Zl(2)] dA(2) Zl(3) by auto
  have lb: "linear_backward lambd dZ (A ! (l - 1)) W b
      = Inr (dW_spec lambd dZ (A ! (l - 1)) W, db_spec dZ, dA_prev_spec W dZ)"
    using dZ Zl W Ap m by (intro linear_backward_eq) (simp_all add: shape_def)
  let ?dW = "dW_spec lambd dZ (A ! (l - 1)) W"
  have shW: "wf_array ?dW" "shape ?dW = (dim (layers M ! l), dim (layers M ! (l - 1)))"
    using dZ Zl Ap by (simp_all add: dW_spec_def shape_def)
  have shb: "wf_array (db_spec dZ)" "shape (db_spec dZ) = (dim (layers M ! l), 1)"
    using dZ Zl by (simp_all add: db_spec_def shape_def)
  have shp: "wf_array (dA_prev_spec W dZ)"
    "shape (dA_prev_spec W dZ) = (dim (layers M ! (l - 1)), m)"
    using dZ Zl W by (simp_all add: dA_prev_spec_def shape_def)
  have pk: "pack_params (compile M) l grad ?dW (db_spec dZ)
      = Inr (take (layer_start (layers M) l) grad @ elems ?dW @ elems (db_spec dZ)
             @ drop (layer_start (layers M) (Suc l)) grad)"
    using l shW shb gg by (intro pack_params_compile) auto
  have prev: "py_prev A l = Inr (A ! (l - 1))" using l lenA by simp
  have "backward_loop lambd (compile M) params A Z (l # ls) dA grad
      = backward_loop lambd (compile M) params A Z ls (dA_prev_spec W dZ)
          (take (layer_start (layers M) l) grad @ elems ?dW @ elems (db_spec dZ)
           @ drop (layer_start (layers M) (Suc l)) grad)"
    using l u act(1) Zl(1) lenZ lenA dZ Zl(3) Al prev lb pk
    by (simp add: compile_layers)
  then show ?thesis using u act(1) Zl(1) dZ(1) shp shW shb by blast
qed

lemma backward_loop_spec:
  assumes wb: "well_built M" and g: "total_param_length (layers M) \<le> length params"
    and A: "caches_ok M m (length (layers M)) A" and Z: "zcache_ok M m Z" and m: "0 < m"
  shows "1 \<le> k \<Longrightarrow> k \<le> length (layers M) \<Longrightarrow>
     total_param_length (layers M) \<le> length grad \<Longrightarrow>
     wf_array dA \<Longrightarrow> shape dA = (dim (layers M ! (k - 1)), m) \<Longrightarrow>
     \<exists>g' dAf dZf.
        backward_loop lambd (compile M) params A Z (rev [1..<k]) dA grad = Inr g'
        \<and> length g' = length grad
        \<and> drop (layer_start (layers M) k) g' = drop (layer_start (layers M) k) grad
        \<and> dAf (k - 1) = dA
        \<and> (\<forall>l. 1 \<le> l \<and> l < k \<longrightarrow>
              (\<exists>W b act Zl. unpack_params (compile M) l params = Inr (W, b)
                 \<and> activation (layers M ! l) = Some act \<and> Z ! l = Some Zl
                 \<and> snd (snd act) (dAf l) Zl = Inr (dZf l)
                 \<and> dAf (l - 1) = dA_prev_spec W (dZf l)
                 \<and> unpack_params (compile M) l g'
                     = Inr (dW_spec lambd (dZf l) (A ! (l - 1)) W, db_spec (dZf l))))"
proof (induction k arbitrary: dA grad)
  case 0
  then show ?case by simp
next
  case (Suc k)
  show ?case
  proof (cases "k = 0")
    case True
    then show ?thesis by (intro exI [of _ grad] exI [of _ "\<lambda>i. dA"]) simp
  next
    case False
    then have k: "1 \<le> k" "k < length (layers M)" using Suc.prems by simp_all
    have shdA: "shape dA = (dim (layers M ! k), m)" using Suc.prems(5) by simp
    let ?s = "layer_start (layers M) k"
    let ?S = "layer_start (layers M) (Suc k)"
    obtain W b act Zl dZ where u: "unpack_params (compile M) k params = Inr (W, b)"
      and act: "activation (layers M ! k) = Some act" and Zl: "Z ! k = Some Zl"
      and dZ: "snd (snd act) dA Zl = Inr dZ"
      and p: "wf_array (dA_prev_spec W dZ)"
        "shape (dA_prev_spec W dZ) = (dim (layers M ! (k - 1)), m)"
      and dW: "wf_array (dW_spec lambd dZ (A ! (k - 1)) W)"
        "shape (dW_spec lambd dZ (A ! (k - 1)) W) = (dim (layers M ! k), dim (layers M ! (k - 1)))"
      and db: "wf_array (db_spec dZ)" "shape (db_spec dZ) = (dim (layers M ! k), 1)"
      and step: "backward_loop lambd (compile M) params A Z (k # rev [1..<k]) dA grad
               = backward_loop lambd (compile M) params A Z (rev [1..<k]) (dA_prev_spec W dZ)
                   (take ?s grad @ elems (dW_spec lambd dZ (A ! (k - 1)) W) @ elems (db_spec dZ)
                    @ drop ?S grad)"
      using backward_step [OF wb k g Suc.prems(3) A Z Suc.prems(4) shdA m, of lambd "rev [1..<k]"]
      by blast
    let ?dW = "dW_spec lambd dZ (A ! (k - 1)) W"
    let ?db = "db_spec dZ"
    let ?g1 = "take ?s grad @ elems ?dW @ elems ?db @ drop ?S grad"
    let ?p = "dim (layers M ! (k - 1)) * dim (layers M ! k)"
    let ?d = "dim (layers M ! k)"
    have lenW: "length (elems ?dW) = ?p" using dW by (simp add: shape_def wf_array_def mult.commute)
    have lenb: "length (elems ?db) = ?d" using db by (simp add: shape_def wf_array_def)
    have S: "?S = ?s + ?p + ?d" using k by (simp add: layer_start_Suc layer_size_def)
    have le: "?S \<le> length grad"
      using layer_start_le_total [of "Suc k" "layers M"] k Suc.prems(3) by simp
    have len1: "length ?g1 = length grad" using le S lenW lenb by simp
    have ts: "length (take ?s grad) = ?s" using le S by simp
    obtain g' dAf dZf where
      r: "backward_loop lambd (compile M) params A Z (rev [1..<k]) (dA_prev_spec W dZ) ?g1 = Inr g'"
      and len': "length g' = length ?g1"
      and dr: "drop ?s g' = drop ?s ?g1"
      and dAf: "dAf (k - 1) = dA_prev_spec W dZ"
      and all: "\<forall>l. 1 \<le> l \<and> l < k \<longrightarrow>
              (\<exists>W b act Zl. unpack_params (compile M) l params = Inr (W, b)
                 \<and> activation (layers M ! l) = Some act \<and> Z ! l = Some Zl
                 \<and> snd (snd act) (dAf l) Zl = Inr (dZf l)
                 \<and> dAf (l - 1) = dA_prev_spec W (dZf l)
                 \<and> unpack_params (compile M) l g'
                     = Inr (dW_spec lambd (dZf l) (A ! (l - 1)) W, db_spec (dZf l)))"
      using Suc.IH [of ?g1 "dA_prev_spec W dZ"] k Suc.prems(3) len1 p by auto
    have dr1: "drop ?s g' = elems ?dW @ elems ?db @ drop ?S grad" using dr ts by simp
    have lenG: "length g' = length grad" using len' len1 by simp
    have w: "take ?p (drop ?s g') = elems ?dW" using dr1 lenW by simp
    have "drop (?s + ?p) g' = drop ?p (drop ?s g')" by (simp add: add.commute)
    then have b1: "drop (?s + ?p) g' = elems ?db @ drop ?S grad" using dr1 lenW by simp
    then have bb: "take ?d (drop (?s + ?p) g') = elems ?db" using lenb by simp
    have dS: "drop ?S g' = drop ?S grad"
    proof -
      have "drop ?S g' = drop ?d (drop (?s + ?p) g')" using S by (simp add: add.commute)
      also have "\<dots> = drop ?d (elems ?db @ drop ?S grad)" by (simp only: b1)
      also have "\<dots> = drop ?S grad" using lenb by simp
      finally show ?thesis .
    qed
    have WW: "NDArray ?d (dim (layers M ! (k - 1))) (elems ?dW) = ?dW"
      using dW by (cases ?dW) (simp add: shape_def)
    have BB: "NDArray ?d 1 (elems ?db) = ?db"
      using db by (cases ?db) (simp add: shape_def)
    have ug: "unpack_params (compile M) k g' = Inr (?dW, ?db)"
      using unpack_params_compile [of k M g'] k Suc.prems(3) lenG w bb WW BB by simp
    let ?dAf = "dAf(k := dA)"
    let ?dZf = "dZf(k := dZ)"
    have here: "\<exists>W b act Zl. unpack_params (compile M) k params = Inr (W, b)
                 \<and> activation (layers M ! k) = Some act \<and> Z ! k = Some Zl
                 \<and> snd (snd act) (?dAf k) Zl = Inr (?dZf k)
                 \<and> ?dAf (k - 1) = dA_prev_spec W (?dZf k)
                 \<and> unpack_params (compile M) k g'
                     = Inr (dW_spec lambd (?dZf k) (A ! (k - 1)) W, db_spec (?dZf k))"
      using u act Zl dZ dAf ug k by auto
    have allS: "\<forall>l. 1 \<le> l \<and> l < Suc k \<longrightarrow>
              (\<exists>W b act Zl. unpack_params (compile M) l params = Inr (W, b)
                 \<and> activation (layers M ! l) = Some act \<and> Z ! l = Some Zl
                 \<and> snd (snd act) (?dAf l) Zl = Inr (?dZf l)
                 \<and> ?dAf (l - 1) = dA_prev_spec W (?dZf l)
                 \<and> unpack_params (compile M) l g'
                     = Inr (dW_spec lambd (?dZf l) (A ! (l - 1)) W, db_spec (?dZf l)))"
    proof (intro allI impI)
      fix l assume l: "1 \<le> l \<and> l < Suc k"
      show "\<exists>W b act Zl. unpack_params (compile M) l params = Inr (W, b)
                 \<and> activation (layers M ! l) = Some act \<and> Z ! l = Some Zl
                 \<and> snd (snd act) (?dAf l) Zl = Inr (?dZf l)
                 \<and> ?dAf (l - 1) = dA_prev_spec W (?dZf l)
                 \<and> unpack_params (compile M) l g'
                     = Inr (dW_spec lambd (?dZf l) (A ! (l - 1)) W, db_spec (?dZf l))"
      proof (cases "l = k")
        case True then show ?thesis using here by simp
      next
        case False
        then have lk: "1 \<le> l \<and> l < k" using l by simp
        then have "l \<noteq> k" "l - 1 \<noteq> k" by auto
        then show ?thesis using all lk by simp
      qed
    qed
    have "backward_loop lambd (compile M) params A Z (rev [1..<Suc k]) dA grad = Inr g'"
      using k step r by simp
    moreover have "?dAf (Suc k - 1) = dA" by simp
    ultimately show ?thesis using lenG dS allS by blast
  qed
qed

lemma forward_caches:
  assumes wb: "well_built M" and ne: "layers M \<noteq> []"
    and g: "total_param_length (layers M) \<le> length params"
    and X: "wf_array X" "shape X = (dim (layers M ! 0), m)"
  shows "\<exists>A Z. propagate_forward (compile M) params X = Inr (A, Z)
      \<and> caches_ok M m (length (layers M)) A \<and> zcache_ok M m Z"
proof -
  have m: "ncols X = m" using X by (simp add: shape_def)
  have n1: "1 \<le> length (layers M)" using ne by (cases "layers M") auto
  have ok: "caches_ok M (ncols X) 1 [X]" using X m by (simp add: caches_ok_def)
  obtain A Z where r: "forward_loop (compile M) params X [1..<length (layers M)] [X] [None]
        = Inr (A, Z)"
    and okA: "caches_ok M (ncols X) (length (layers M)) A"
    and lenZ: "length Z = length (layers M)"
    and all: "\<forall>l. 1 \<le> l \<and> l < length (layers M) \<longrightarrow>
              (\<exists>W b act. unpack_params (compile M) l params = Inr (W, b)
                 \<and> activation (layers M ! l) = Some act
                 \<and> Z ! l = Some (linear_spec W (A ! (l - 1)) b)
                 \<and> A ! l = fst act (linear_spec W (A ! (l - 1)) b))"
    using forward_loop_spec [OF wb g refl, of 1 X "[X]" "[None]"] n1 ok by auto
  have "\<exists>Zl. Z ! l = Some Zl \<and> wf_array Zl \<and> shape Zl = (dim (layers M ! l), m)"
    if l: "1 \<le> l \<and> l < length (layers M)" for l
  proof -
    obtain W b where u: "unpack_params (compile M) l params = Inr (W, b)"
      and Zl: "Z ! l = Some (linear_spec W (A ! (l - 1)) b)"
      using all l by blast
    have W: "shape W = (dim (layers M ! l), dim (layers M ! (l - 1)))"
      using unpack_shapes [of l M params] l g u by auto
    have "shape (A ! (l - 1)) = (dim (layers M ! (l - 1)), m)"
      using okA l m by (auto simp: caches_ok_def)
    then have "shape (linear_spec W (A ! (l - 1)) b) = (dim (layers M ! l), m)"
      using W by (simp add: linear_spec_def shape_def)
    then show ?thesis using Zl by (simp add: linear_spec_def)
  qed
  then have "zcache_ok M m Z" using lenZ by (simp add: zcache_ok_def)
  moreover have "propagate_forward (compile M) params X = Inr (A, Z)"
    using r by (simp add: propagate_forward_def compile_layers)
  ultimately show ?thesis using okA m by blast
qed

lemma compute_cost_gen:
  assumes AL: "wf_array AL" and Y: "wf_array Y" "nrows Y = 1" "ncols Y = ncols AL"
    and m: "0 < ncols AL" and g: "total_param_length (layers M) \<le> length params"
    and ne: "layers M \<noteq> []"
  shows "\<exists>ce. \<forall>lambd. compute_cost lambd (compile M) params AL Y
     = Inr (ce + l2_penalty lambd (compile M) params (ncols AL))"
proof -
  obtain t1 where t1: "bop (*) Y (amap ln AL) = Inr t1" "nrows t1 = nrows AL" "ncols t1 = ncols AL"
    using Y bop_row [of Y "amap ln AL" "(*)"] by simp
  obtain t2 where t2: "bop (*) (amap (\<lambda>y. 1 - y) Y) (amap ln (amap (\<lambda>a. 1 - a) AL)) = Inr t2"
    "nrows t2 = nrows AL" "ncols t2 = ncols AL"
    using Y bop_row [of "amap (\<lambda>y. 1 - y) Y" "amap ln (amap (\<lambda>a. 1 - a) AL)" "(*)"] by simp
  obtain s where s: "bop (+) t1 t2 = Inr s"
    using t1 t2 bop_same [of t1 t2 "(+)"] by simp
  have n1: "1 \<le> length (layers M)" using ne by (cases "layers M") auto
  have loop: "cost_loop lambd (compile M) params (ncols AL) [1..<length (layers M)] J
      = Inr (J + l2_penalty lambd (compile M) params (ncols AL))" for J lambd
    using cost_loop_eq [OF g refl m, of 1 lambd J] n1
    by (simp add: l2_penalty_def compile_layers)
  have "\<forall>lambd. compute_cost lambd (compile M) params AL Y
     = Inr ((1 / real (ncols AL)) * sum_all (amap uminus s)
            + l2_penalty lambd (compile M) params (ncols AL))"
    unfolding compute_cost_def Let_def t1 t2 bind_err_Inr s
    using m loop by (simp add: compile_layers)
  then show ?thesis by blast
qed

lemma py_last_in [simp]: "xs \<noteq> [] \<Longrightarrow> py_last xs = Inr (last xs)"
  by (simp add: py_last_def)

lemma propagate_backward_spec:
  assumes wb: "well_built M" and ne: "layers M \<noteq> []"
    and g: "total_param_length (layers M) \<le> length params"
    and A: "caches_ok M m (length (layers M)) A" and Z: "zcache_ok M m Z" and m: "0 < m"
    and Y: "wf_array Y" "shape Y = (1, m)"
  shows "\<exists>grad dAf dZf.
        propagate_backward lambd (compile M) params A Z Y = Inr grad
        \<and> length grad = length params
        \<and> dAf (length (layers M) - 1) = seed_spec (last A) Y
        \<and> (\<forall>l. 1 \<le> l \<and> l < length (layers M) \<longrightarrow>
              (\<exists>W b act Zl. unpack_params (compile M) l params = Inr (W, b)
                 \<and> activation (layers M ! l) = Some act \<and> Z ! l = Some Zl
                 \<and> snd (snd act) (dAf l) Zl = Inr (dZf l)
                 \<and> dAf (l - 1) = dA_prev_spec W (dZf l)
                 \<and> unpack_params (compile M) l grad
                     = Inr (dW_spec lambd (dZf l) (A ! (l - 1)) W, db_spec (dZf l))))"
proof -
  let ?n = "length (layers M)"
  have n1: "1 \<le> ?n" using ne by (cases "layers M") auto
  have lenA: "length A = ?n" using A by (simp add: caches_ok_def)
  then have Ane: "A \<noteq> []" using n1 by auto
  have lastA: "last A = A ! (?n - 1)" using Ane lenA by (simp add: last_conv_nth)
  have AL: "wf_array (last A)" "shape (last A) = (dim (layers M ! (?n - 1)), m)"
    using A n1 lastA by (simp_all add: caches_ok_def)
  have seed: "bind_err (bop (/) Y (last A)) (\<lambda>t1.
         bind_err (bop (/) (amap (\<lambda>y. 1 - y) Y)
                     (amap (\<lambda>a. max a (1 / 10 ^ 8)) (amap (\<lambda>a. 1 - a) (last A)))) (\<lambda>t2.
           bop (+) (amap uminus t1) t2))
       = Inr (seed_spec (last A) Y)"
    using AL Y by (intro seed_eq) (simp_all add: shape_def)
  have sh: "wf_array (seed_spec (last A) Y)"
    "shape (seed_spec (last A) Y) = (dim (layers M ! (?n - 1)), m)"
    using AL by (simp_all add: seed_spec_def shape_def)
  obtain grad dAf dZf where
    r: "backward_loop lambd (compile M) params A Z (rev [1..<?n]) (seed_spec (last A) Y)
          (replicate (length params) 0) = Inr grad"
    and len: "length grad = length (replicate (length params) (0::real))"
    and dAf: "dAf (?n - 1) = seed_spec (last A) Y"
    and all: "\<forall>l. 1 \<le> l \<and> l < ?n \<longrightarrow>
              (\<exists>W b act Zl. unpack_params (compile M) l params = Inr (W, b)
                 \<and> activation (layers M ! l) = Some act \<and> Z ! l = Some Zl
                 \<and> snd (snd act) (dAf l) Zl = Inr (dZf l)
                 \<and> dAf (l - 1) = dA_prev_spec W (dZf l)
                 \<and> unpack_params (compile M) l grad
                     = Inr (dW_spec lambd (dZf l) (A ! (l - 1)) W, db_spec (dZf l)))"
    using backward_loop_spec [OF wb g A Z m n1 _ _ sh, of "replicate (length params) 0" lambd] g
    by auto
  have "propagate_backward lambd (compile M) params A Z Y = Inr grad"
  proof -
    obtain t1 where t1: "bop (/) Y (last A) = Inr t1"
      using seed by (cases "bop (/) Y (last A)") auto
    obtain t2 where t2: "bop (/) (amap (\<lambda>y. 1 - y) Y)
                     (amap (\<lambda>a. max a (1 / 10 ^ 8)) (amap (\<lambda>a. 1 - a) (last A))) = Inr t2"
      using seed t1
      by (cases "bop (/) (amap (\<lambda>y. 1 - y) Y)
                     (amap (\<lambda>a. max a (1 / 10 ^ 8)) (amap (\<lambda>a. 1 - a) (last A)))") auto
    have "bop (+) (amap uminus t1) t2 = Inr (seed_spec (last A) Y)"
      using seed t1 t2 by simp
    then show ?thesis
      using t1 t2 r Ane by (simp add: propagate_backward_def Let_def compile_layers)
  qed
  then show ?thesis using len dAf all by auto
qed

lemma cost_returns:
  assumes wb: "well_built M" and ne: "layers M \<noteq> []"
    and g: "total_param_length (layers M) \<le> length params"
    and X: "wf_array X" "shape X = (dim (layers M ! 0), m)"
    and Y: "wf_array Y" "shape Y = (1, m)" and m: "0 < m"
  shows "\<exists>A Z ce. propagate_forward (compile M) params X = Inr (A, Z)
      \<and> caches_ok M m (length (layers M)) A \<and> zcache_ok M m Z
      \<and> (\<forall>lambd. compute_cost lambd (compile M) params (last A) Y
            = Inr (ce + l2_penalty lambd (compile M) params m))
      \<and> (\<forall>lambd. \<exists>grad. propagate_backward lambd (compile M) params A Z Y = Inr grad
            \<and> cost lambd (compile M) params X Y
                = Inr (ce + l2_penalty lambd (compile M) params m, grad))"
proof -
  obtain A Z where f: "propagate_forward (compile M) params X = Inr (A, Z)"
    and A: "caches_ok M m (length (layers M)) A" and Z: "zcache_ok M m Z"
    using forward_caches [OF wb ne g X] by blast
  let ?n = "length (layers M)"
  have n1: "1 \<le> ?n" using ne by (cases "layers M") auto
  have lenA: "length A = ?n" using A by (simp add: caches_ok_def)
  then have Ane: "A \<noteq> []" using n1 by auto
  have lastA: "last A = A ! (?n - 1)" using Ane lenA by (simp add: last_conv_nth)
  have AL: "wf_array (last A)" "ncols (last A) = m"
    using A n1 lastA by (simp_all add: caches_ok_def shape_def)
  obtain ce where ce: "\<forall>lambd. compute_cost lambd (compile M) params (last A) Y
     = Inr (ce + l2_penalty lambd (compile M) params m)"
    using compute_cost_gen [OF AL(1) Y(1) _ _ _ g ne] Y(2) AL(2) m by (auto simp: shape_def)
  have "\<exists>grad. propagate_backward lambd (compile M) params A Z Y = Inr grad
            \<and> cost lambd (compile M) params X Y
                = Inr (ce + l2_penalty lambd (compile M) params m, grad)" for lambd
  proof -
    obtain grad where b: "propagate_backward lambd (compile M) params A Z Y = Inr grad"
      using propagate_backward_spec [OF wb ne g A Z m Y, of lambd] by blast
    have "cost lambd (compile M) params X Y
        = Inr (ce + l2_penalty lambd (compile M) params m, grad)"
      using f Ane ce b by (simp add: cost_def)
    then show ?thesis using b by blast
  qed
  then show ?thesis using f A Z ce by blast
qed

text \<open>
  Claim C1. For a model built by \<^verbatim>\<open>add\<close> calls and compiled, a parameter vector that
  holds all the blocks, a batch \<open>X\<close> of shape \<open>(dim[0], m)\<close> and labels \<open>Y\<close> of shape
  \<open>(1, m)\<close> with \<open>m > 0\<close>, \<^verbatim>\<open>_cost\<close> returns a gradient of the length of the
  parameter vector that obeys the recurrence of backpropagation over the caches \<open>A\<close>,
  \<open>Z\<close> of the forward pass: there are arrays \<open>dA l\<close> and \<open>dZ l\<close> with \<open>dA L\<close> the seed
  (clamped in the \<open>1 - A\<^sub>L\<close> denominator only), and for every layer \<open>l \<ge> 1\<close>:
  \<open>dZ l\<close> is the layer's backward rule at \<open>(dA l, Z[l])\<close>, \<open>dA (l-1) = W\<^sub>l\<^sup>T \<cdot> dZ l\<close>, and
  unpacking layer \<open>l\<close> from the gradient gives
  \<open>((1/m) \<cdot> dZ l \<cdot> A[l-1]\<^sup>T + (\<lambda>/m) \<cdot> W\<^sub>l, (1/m) \<cdot> row-sum(dZ l))\<close>.
\<close>

theorem cost_gradient_spec:
  assumes "build cs = Inr M" "layers M \<noteq> []"
    and "total_param_length (layers M) \<le> length params"
    and "wf_array X" "shape X = (dim (layers M ! 0), m)"
    and "wf_array Y" "shape Y = (1, m)" "0 < m"
  shows "\<exists>A Z c grad dA dZ.
      propagate_forward M params X = Inr (A, Z)
      \<and> cost lambd M params X Y = Inr (c, grad)
      \<and> length grad = length params
      \<and> dA (length (layers M) - 1) = seed_spec (last A) Y
      \<and> (\<forall>l\<in>{1..<length (layers M)}.
            \<exists>W b act Zl. unpack_params M l params = Inr (W, b)
              \<and> activation (layers M ! l) = Some act \<and> Z ! l = Some Zl
              \<and> snd (snd act) (dA l) Zl = Inr (dZ l)
              \<and> dA (l - 1) = dA_prev_spec W (dZ l)
              \<and> unpack_params M l grad
                  = Inr (dW_spec lambd (dZ l) (A ! (l - 1)) W, db_spec (dZ l)))"
proof -
  obtain M0 where M: "M = compile M0" and wb: "well_built M0"
    using build_Inr [OF assms(1)] by blast
  have L: "layers M = layers M0" by (simp add: M compile_layers)
  have ne: "layers M0 \<noteq> []" using assms(2) L by simp
  have g: "total_param_length (layers M0) \<le> length params" using assms(3) L by simp
  have X: "shape X = (dim (layers M0 ! 0), m)" using assms(5) L by simp
  obtain A Z ce where f: "propagate_forward (compile M0) params X = Inr (A, Z)"
    and A: "caches_ok M0 m (length (layers M0)) A" and Z: "zcache_ok M0 m Z"
    and c: "\<forall>lambd. \<exists>grad. propagate_backward lambd (compile M0) params A Z Y = Inr grad
            \<and> cost lambd (compile M0) params X Y
                = Inr (ce + l2_penalty lambd (compile M0) params m, grad)"
    using cost_returns [OF wb ne g assms(4) X assms(6,7,8)] by blast
  obtain grad where b: "propagate_backward lambd (compile M0) params A Z Y = Inr grad"
    and cg: "cost lambd (compile M0) params X Y
                = Inr (ce + l2_penalty lambd (compile M0) params m, grad)"
    using c by blast
  obtain grad' dAf dZf where
    b': "propagate_backward lambd (compile M0) params A Z Y = Inr grad'"
    and len: "length grad' = length params"
    and seed: "dAf (length (layers M0) - 1) = seed_spec (last A) Y"
    and all: "\<forall>l. 1 \<le> l \<and> l < length (layers M0) \<longrightarrow>
              (\<exists>W b act Zl. unpack_params (compile M0) l params = Inr (W, b)
                 \<and> activation (layers M0 ! l) = Some act \<and> Z ! l = Some Zl
                 \<and> snd (snd act) (dAf l) Zl = Inr (dZf l)
                 \<and> dAf (l - 1) = dA_prev_spec W (dZf l)
                 \<and> unpack_params (compile M0) l grad'
                     = Inr (dW_spec lambd (dZf l) (A ! (l - 1)) W, db_spec (dZf l)))"
    using propagate_backward_spec [OF wb ne g A Z assms(8) assms(6,7), of lambd] by blast
  have gg: "grad' = grad" using b b' by simp
  have all': "\<forall>l\<in>{1..<length (layers M)}.
            \<exists>W b act Zl. unpack_params M l params = Inr (W, b)
              \<and> activation (layers M ! l) = Some act \<and> Z ! l = Some Zl
              \<and> snd (snd act) (dAf l) Zl = Inr (dZf l)
              \<and> dAf (l - 1) = dA_prev_spec W (dZf l)
              \<and> unpack_params M l grad
                  = Inr (dW_spec lambd (dZf l) (A ! (l - 1)) W, db_spec (dZf l))"
    using all unfolding L gg M [symmetric] by simp
  show ?thesis
    using f cg len seed all' unfolding L gg M [symmetric] by blast
qed

lemma l2_penalty_zero [simp]: "l2_penalty 0 M params m = 0"
  by (simp add: l2_penalty_def)

text \<open>
  Claim C2. Under the same conditions and with an output layer of one unit, so that
  \<open>A\<^sub>L\<close> has shape \<open>(1, m)\<close>, the cost that \<^verbatim>\<open>_cost\<close> returns is the mean over the batch
  of \<open>-(Y\<^sub>i \<cdot> log A\<^sub>L\<^sub>i + (1 - Y\<^sub>i) \<cdot> log (1 - A\<^sub>L\<^sub>i))\<close> plus the sum over the layers
  \<open>l \<ge> 1\<close> of \<open>(\<lambda> / (2m)) \<cdot> \<Sum>(W\<^sub>l\<^sup>2)\<close>, and with \<open>\<lambda> = 0\<close> it is the mean alone.
\<close>

theorem cost_value_spec:
  assumes "build cs = Inr M" "layers M \<noteq> []" "dim (last (layers M)) = 1"
    and "total_param_length (layers M) \<le> length params"
    and "wf_array X" "shape X = (dim (layers M ! 0), m)"
    and "wf_array Y" "shape Y = (1, m)" "0 < m"
  shows "\<exists>A Z c grad c0 grad0.
      propagate_forward M params X = Inr (A, Z)
      \<and> shape (last A) = (1, m)
      \<and> cost lambd M params X Y = Inr (c, grad)
      \<and> c = cross_entropy (last A) Y + l2_penalty lambd M params m
      \<and> cost 0 M params X Y = Inr (c0, grad0)
      \<and> c0 = cross_entropy (last A) Y"
proof -
  obtain M0 where M: "M = compile M0" and wb: "well_built M0"
    using build_Inr [OF assms(1)] by blast
  have L: "layers M = layers M0" by (simp add: M compile_layers)
  have ne: "layers M0 \<noteq> []" using assms(2) L by simp
  have g: "total_param_length (layers M0) \<le> length params" using assms(4) L by simp
  have X: "shape X = (dim (layers M0 ! 0), m)" using assms(6) L by simp
  obtain A Z ce where f: "propagate_forward (compile M0) params X = Inr (A, Z)"
    and A: "caches_ok M0 m (length (layers M0)) A"
    and cc: "\<forall>lambd. compute_cost lambd (compile M0) params (last A) Y
            = Inr (ce + l2_penalty lambd (compile M0) params m)"
    and c: "\<forall>lambd. \<exists>grad. propagate_backward lambd (compile M0) params A Z Y = Inr grad
            \<and> cost lambd (compile M0) params X Y
                = Inr (ce + l2_penalty lambd (compile M0) params m, grad)"
    using cost_returns [OF wb ne g assms(5) X assms(7,8,9)] by blast
  let ?n = "length (layers M0)"
  have n1: "1 \<le> ?n" using ne by (cases "layers M0") auto
  have lenA: "length A = ?n" using A by (simp add: caches_ok_def)
  then have Ane: "A \<noteq> []" using n1 by auto
  have lastA: "last A = A ! (?n - 1)" using Ane lenA by (simp add: last_conv_nth)
  have lastL: "last (layers M0) = layers M0 ! (?n - 1)" using ne by (simp add: last_conv_nth)
  have AL: "wf_array (last A)" "shape (last A) = (1, m)"
    using A n1 lastA lastL assms(3) L by (simp_all add: caches_ok_def)
  have "compute_cost 0 (compile M0) params (last A) Y
      = Inr (cross_entropy (last A) Y + l2_penalty 0 (compile M0) params m)"
    using AL assms(7,8,9) g ne by (intro compute_cost_eq)
  then have ce: "ce = cross_entropy (last A) Y" using cc by simp
  obtain grad where cg: "cost lambd (compile M0) params X Y
                = Inr (ce + l2_penalty lambd (compile M0) params m, grad)"
    using c by blast
  obtain grad0 where c0: "cost 0 (compile M0) params X Y = Inr (ce, grad0)"
    using c [rule_format, of 0] by auto
  show ?thesis
    using f AL(2) cg c0 ce unfolding M [symmetric] by blast
qed

section \<open>A network of one sigmoid unit\<close>

lemma example_layers:
  "map dim (layers (compile (add_calls [(1, ''sigmoid'', 1)] NnModel_init))) = [1, 1]"
  by (simp add: compile_layers add_calls_def add_def NnModel_init_def activations_def)

lemma example_build:
  "build [(1, ''sigmoid'', 1)] = Inr (compile (add_calls [(1, ''sigmoid'', 1)] NnModel_init))"
  by (simp add: build_def add_calls_def add_def NnModel_init_def activations_def)

lemma example_facts:
  "length (layers (compile (add_calls [(1, ''sigmoid'', 1)] NnModel_init))) = 2"
  "dim (layers (compile (add_calls [(1, ''sigmoid'', 1)] NnModel_init)) ! 0) = 1"
  "dim (layers (compile (add_calls [(1, ''sigmoid'', 1)] NnModel_init)) ! 1) = 1"
  "dim (last (layers (compile (add_calls [(1, ''sigmoid'', 1)] NnModel_init)))) = 1"
  "layers (compile (add_calls [(1, ''sigmoid'', 1)] NnModel_init)) \<noteq> []"
proof -
  let ?ls = "layers (compile (add_calls [(1, ''sigmoid'', 1)] NnModel_init))"
  show len: "length ?ls = 2" using arg_cong [OF example_layers, of length] by simp
  show "dim (?ls ! 0) = 1" using arg_cong [OF example_layers, of "\<lambda>xs. xs ! 0"] len by simp
  show "dim (?ls ! 1) = 1" using arg_cong [OF example_layers, of "\<lambda>xs. xs ! 1"] len by simp
  show ne: "?ls \<noteq> []" using len by auto
  have "dim (last ?ls) = last (map dim ?ls)" using ne by (simp add: last_map)
  also have "\<dots> = last [1, 1]" by (simp only: example_layers)
  finally show "dim (last ?ls) = 1" by simp
qed

lemma example_total:
  "total_param_length (layers (compile (add_calls [(1, ''sigmoid'', 1)] NnModel_init))) = 2"
  using example_facts(1,2,3) by (simp add: total_param_length_def numeral_2_eq_2)

theorem cost_gradient_spec_witness:
  "build [(1, ''sigmoid'', 1)] = Inr (compile (add_calls [(1, ''sigmoid'', 1)] NnModel_init))
   \<and> layers (compile (add_calls [(1, ''sigmoid'', 1)] NnModel_init)) \<noteq> []
   \<and> total_param_length (layers (compile (add_calls [(1, ''sigmoid'', 1)] NnModel_init)))
       \<le> length [1, 0 :: real]
   \<and> wf_array (NDArray 1 1 [1])
   \<and> shape (NDArray 1 1 [1])
       = (dim (layers (compile (add_calls [(1, ''sigmoid'', 1)] NnModel_init)) ! 0), 1)
   \<and> shape (NDArray 1 1 [1]) = (1, 1) \<and> (0::nat) < 1
   \<and> (\<exists>c grad W b. cost 0 (compile (add_calls [(1, ''sigmoid'', 1)] NnModel_init)) [1, 0]
                (NDArray 1 1 [1]) (NDArray 1 1 [1]) = Inr (c, grad)
         \<and> length grad = 2
         \<and> unpack_params (compile (add_calls [(1, ''sigmoid'', 1)] NnModel_init)) 1 grad
              = Inr (W, b))"
proof -
  let ?M = "compile (add_calls [(1, ''sigmoid'', 1)] NnModel_init)"
  let ?X = "NDArray 1 1 [1]"
  have h3: "total_param_length (layers ?M) \<le> length [1, 0 :: real]"
    using example_total by simp
  have h4: "wf_array ?X" by (simp add: wf_array_def)
  have h5: "shape ?X = (dim (layers ?M ! 0), 1)" using example_facts by (simp add: shape_def)
  have h7: "shape ?X = (1, 1)" by (simp add: shape_def)
  have h8: "(0::nat) < 1" by simp
  have mem: "(1::nat) \<in> {1..<length (layers ?M)}" using example_facts by simp
  obtain A Z c grad dA dZ where r: "cost 0 ?M [1, 0] ?X ?X = Inr (c, grad)"
    "length grad = length [1, 0 :: real]"
    and all: "\<forall>l\<in>{1..<length (layers ?M)}.
            \<exists>W b act Zl. unpack_params ?M l [1, 0] = Inr (W, b)
              \<and> activation (layers ?M ! l) = Some act \<and> Z ! l = Some Zl
              \<and> snd (snd act) (dA l) Zl = Inr (dZ l)
              \<and> dA (l - 1) = dA_prev_spec W (dZ l)
              \<and> unpack_params ?M l grad
                  = Inr (dW_spec 0 (dZ l) (A ! (l - 1)) W, db_spec (dZ l))"
    using cost_gradient_spec [OF example_build example_facts(5) h3 h4 h5 h4 h7 h8, of 0]
    by blast
  obtain W b where "unpack_params ?M 1 grad = Inr (W, b)"
    using all mem by blast
  then have "\<exists>c grad W b. cost 0 ?M [1, 0] ?X ?X = Inr (c, grad) \<and> length grad = 2
         \<and> unpack_params ?M 1 grad = Inr (W, b)"
    using r by auto
  then show ?thesis using example_build example_facts(5) h3 h4 h5 h7 h8 by blast
qed

theorem cost_value_spec_witness:
  "build [(1, ''sigmoid'', 1)] = Inr (compile (add_calls [(1, ''sigmoid'', 1)] NnModel_init))
   \<and> layers (compile (add_calls [(1, ''sigmoid'', 1)] NnModel_init)) \<noteq> []
   \<and> dim (last (layers (compile (add_calls [(1, ''sigmoid'', 1)] NnModel_init)))) = 1
   \<and> total_param_length (layers (compile (add_calls [(1, ''sigmoid'', 1)] NnModel_init)))
       \<le> length [1, 0 :: real]
   \<and> wf_array (NDArray 1 1 [1])
   \<and> shape (NDArray 1 1 [1])
       = (dim (layers (compile (add_calls [(1, ''sigmoid'', 1)] NnModel_init)) ! 0), 1)
   \<and> shape (NDArray 1 1 [1]) = (1, 1) \<and> (0::nat) < 1
   \<and> (\<exists>A Z c grad. propagate_forward (compile (add_calls [(1, ''sigmoid'', 1)] NnModel_init))
                [1, 0] (NDArray 1 1 [1]) = Inr (A, Z)
         \<and> cost 1 (compile (add_calls [(1, ''sigmoid'', 1)] NnModel_init)) [1, 0]
                (NDArray 1 1 [1]) (NDArray 1 1 [1]) = Inr (c, grad)
         \<and> c = cross_entropy (last A) (NDArray 1 1 [1])
                 + l2_penalty 1 (compile (add_calls [(1, ''sigmoid'', 1)] NnModel_init)) [1, 0] 1)"
proof -
  let ?M = "compile (add_calls [(1, ''sigmoid'', 1)] NnModel_init)"
  let ?X = "NDArray 1 1 [1]"
  have h3: "total_param_length (layers ?M) \<le> length [1, 0 :: real]"
    using example_total by simp
  have h4: "wf_array ?X" by (simp add: wf_array_def)
  have h5: "shape ?X = (dim (layers ?M ! 0), 1)" using example_facts by (simp add: shape_def)
  have h7: "shape ?X = (1, 1)" by (simp add: shape_def)
  have h8: "(0::nat) < 1" by simp
  have "\<exists>A Z c grad. propagate_forward ?M [1, 0] ?X = Inr (A, Z)
         \<and> cost 1 ?M [1, 0] ?X ?X = Inr (c, grad)
         \<and> c = cross_entropy (last A) ?X + l2_penalty 1 ?M [1, 0] 1"
    using cost_value_spec [OF example_build example_facts(5,4) h3 h4 h5 h4 h7 h8, of 1]
    by blast
  then show ?thesis using example_build example_facts(5,4) h3 h4 h5 h7 h8 by blast
qed

end
